theory Spec2Isabelle
  imports Main "HOL-Library.Char_ord" "HOL-Library.List_Lexorder"
begin

section \<open>The shard registry of \<open>src/mongo/s/client/shard.cpp\<close>\<close>

text \<open>
  The file holds the class \<open>StaticShardInfo\<close> (two \<open>std::map<string, ShardPtr>\<close> tables
  behind two mutexes), the members of \<open>Shard\<close> and the placement routine \<open>Shard::pick\<close>.
  The model is sequential: one caller, each operation running to its end, so the two
  mutexes do not appear. The records behind the shared pointers are never written after
  they are built, so a table maps a key to the record itself. An operation that can throw
  returns the exception or its result, together with the state it leaves.
\<close>

subsection \<open>Values\<close>

text \<open>The exceptions the file raises: \<open>massert\<close> throws a \<open>MsgAssertionException\<close>,
  \<open>uassert\<close> and \<open>uassertStatusOK\<close> throw a \<open>UserException\<close>; both carry a code.\<close>

datatype error = MsgAssertionException nat | UserException nat

text \<open>A \<open>Status\<close>: either OK or an error with the code that \<open>uassertStatusOK\<close> reports.\<close>

datatype Status = OK | NotOK nat

datatype ConnectionType = INVALID | MASTER | PAIR | SET | SYNC | CUSTOM

text \<open>What the file reads of a \<open>ConnectionString\<close>: \<open>type()\<close>, \<open>getSetName()\<close> and
  \<open>getServers()\<close>, each server already rendered by \<open>HostAndPort::toString()\<close>.\<close>

record ConnectionString =
  cs_type :: ConnectionType
  getSetName :: string
  getServers :: "string list"

text \<open>The default-constructed \<open>ConnectionString\<close> that a \<open>Shard\<close> holds before
  \<open>_setAddr\<close> assigns one.\<close>

definition ConnectionString_default :: ConnectionString where
  "ConnectionString_default = \<lparr>cs_type = INVALID, getSetName = [], getServers = []\<rparr>"

text \<open>The members \<open>_name\<close>, \<open>_addr\<close>, \<open>_cs\<close>, \<open>_maxSizeMB\<close> and \<open>_isDraining\<close> of
  \<open>Shard\<close>. \<open>getName()\<close> reads \<open>s_name\<close>, \<open>getConnString()\<close> reads \<open>s_addr\<close> and
  \<open>getAddress()\<close> reads \<open>s_cs\<close>.\<close>

record Shard =
  s_name :: string
  s_addr :: string
  s_cs :: ConnectionString
  s_maxSizeMB :: int
  s_isDraining :: bool

text \<open>A \<open>ShardType\<close> document of the catalog, through the four getters \<open>reload\<close> calls.\<close>

record ShardType =
  getName :: string
  getHost :: string
  getMaxSize :: int
  getDraining :: bool

text \<open>A \<open>ShardStatus\<close>: the shard, its data size in bytes and its version string.\<close>

record ShardStatus =
  shard :: Shard
  dataSizeBytes :: int
  mongoVersion :: string

text \<open>A BSON element as far as the two probes look at it (\<open>type() == String\<close>,
  \<open>isNumber()\<close>); \<open>EOO\<close> is the element a missing field yields.\<close>

datatype BSONElement = EOO | BString string | BNumber int | BOther

type_synonym BSONObj = "string \<Rightarrow> BSONElement"

subsection \<open>Collaborators\<close>

text \<open>
  The code that the file calls and that lives in other files is a parameter of the model:
  \<^item> \<open>catalog n\<close>: the status and the shard list that the \<open>n\<close>-th call of
    \<open>grid.catalogManager()->getAllShards(&shards)\<close> yields;
  \<^item> \<open>validate\<close>: \<open>ShardType::validate()\<close>;
  \<^item> \<open>connStrSET addr\<close>: the constructor \<open>ConnectionString(addr, ConnectionString::SET)\<close>;
  \<^item> \<open>parse ident\<close>: \<open>ConnectionString::parse(ident, errmsg)\<close>, the result and \<open>errmsg\<close>;
  \<^item> \<open>rsMonitorGet name\<close>: \<open>ReplicaSetMonitor::get(name, true)\<close>, \<open>None\<close> for a null
    pointer, else what \<open>rs->contains(HostAndPort(node))\<close> yields for each \<open>node\<close>: the
    monitor's answer, or the exception that the call raises;
  \<^item> \<open>runCommand host cmd\<close>: what \<open>conn->runCommand("admin", BSON(cmd << 1), res)\<close> returns
    on a connection to \<open>host\<close>, and the reply;
  \<^item> \<open>statusLess\<close>: \<open>ShardStatus::operator<\<close>.
\<close>

record Env =
  catalog :: "nat \<Rightarrow> Status \<times> ShardType list"
  validate :: "ShardType \<Rightarrow> Status"
  connStrSET :: "string \<Rightarrow> ConnectionString"
  parse :: "string \<Rightarrow> ConnectionString \<times> string"
  rsMonitorGet :: "string \<Rightarrow> (string \<Rightarrow> error + bool) option"
  runCommand :: "string \<Rightarrow> string \<Rightarrow> bool \<times> BSONObj"
  statusLess :: "ShardStatus \<Rightarrow> ShardStatus \<Rightarrow> bool"

subsection \<open>Shard construction\<close>

text \<open>\<open>Shard::Shard()\<close>.\<close>

definition Shard_default :: Shard where
  "Shard_default =
     \<lparr>s_name = [], s_addr = [], s_cs = ConnectionString_default,
      s_maxSizeMB = 0, s_isDraining = False\<rparr>"

text \<open>\<open>Shard::_setAddr\<close>: the address is stored, and parsed only when it is not empty.\<close>

definition Shard_setAddr :: "Env \<Rightarrow> string \<Rightarrow> Shard \<Rightarrow> Shard" where
  "Shard_setAddr env a sh =
     (let sh1 = sh\<lparr>s_addr := a\<rparr>
      in if s_addr sh1 \<noteq> [] then sh1\<lparr>s_cs := connStrSET env a\<rparr> else sh1)"

text \<open>\<open>Shard::Shard(name, addr, maxSizeMB, isDraining)\<close>.\<close>

definition Shard_ctor :: "Env \<Rightarrow> string \<Rightarrow> string \<Rightarrow> int \<Rightarrow> bool \<Rightarrow> Shard" where
  "Shard_ctor env n a m d =
     Shard_setAddr env a
       \<lparr>s_name = n, s_addr = a, s_cs = ConnectionString_default,
        s_maxSizeMB = m, s_isDraining = d\<rparr>"

text \<open>Modelled from the spec: the static \<open>Shard::EMPTY\<close> is declared and defined outside
  this file; the spec calls it the reserved sentinel with the empty name, which is what the
  default constructor builds.\<close>

definition EMPTY :: Shard where
  "EMPTY = Shard_default"

text \<open>Modelled from the spec: \<open>Shard::operator!=\<close> is defined in the header; the spec says
  that comparison with the sentinel is by name only.\<close>

definition Shard_ne :: "Shard \<Rightarrow> Shard \<Rightarrow> bool" where
  "Shard_ne a b = (s_name a \<noteq> s_name b)"

subsection \<open>The tables\<close>

text \<open>A \<open>std::map<string, ShardPtr>\<close> is the list of its entries in iteration order, which
  is the order of the keys (\<open>std::string\<close> compares bytes lexicographically).\<close>

type_synonym ShardMap = "(string \<times> Shard) list"

text \<open>\<open>m.find(k)\<close>: the record under \<open>k\<close>, \<open>None\<close> for \<open>m.end()\<close>.\<close>

fun map_find :: "ShardMap \<Rightarrow> string \<Rightarrow> Shard option" where
  "map_find [] k = None"
| "map_find ((k', v) # m) k = (if k = k' then Some v else map_find m k)"

text \<open>\<open>m[k] = v\<close>: overwrite the entry under \<open>k\<close>, or insert it at its place.\<close>

fun map_assign :: "string \<Rightarrow> Shard \<Rightarrow> ShardMap \<Rightarrow> ShardMap" where
  "map_assign k v [] = [(k, v)]"
| "map_assign k v ((k', v') # m) =
     (if k = k' then (k, v) # m
      else if k < k' then (k, v) # (k', v') # m
      else (k', v') # map_assign k v m)"

text \<open>The state of \<open>staticShardInfo\<close>: \<open>_lookup\<close> and \<open>_rsLookup\<close>. The third field is not
  in the class: it counts the calls made to the catalog so far, so that a theorem can say
  how often an operation reloads.\<close>

record StaticShardInfo =
  lookup :: ShardMap
  rsLookup :: ShardMap
  catalogCalls :: nat

text \<open>The invariant of a \<open>std::map\<close>: strictly increasing keys.\<close>

definition wf_map :: "ShardMap \<Rightarrow> bool" where
  "wf_map m = sorted_wrt (<) (map fst m)"

definition wf_state :: "StaticShardInfo \<Rightarrow> bool" where
  "wf_state s = (wf_map (lookup s) \<and> wf_map (rsLookup s))"

text \<open>The state of \<open>staticShardInfo\<close> when the process starts.\<close>

definition initial :: StaticShardInfo where
  "initial = \<lparr>lookup = [], rsLookup = [], catalogCalls = 0\<rparr>"

subsection \<open>\<open>_installHost\<close> and \<open>set\<close>\<close>

text \<open>The loop over \<open>cs.getServers()\<close> in \<open>_installHost\<close>.\<close>

fun installServers :: "string list \<Rightarrow> Shard \<Rightarrow> ShardMap \<Rightarrow> ShardMap" where
  "installServers [] sh m = m"
| "installServers (h # hs) sh m = installServers hs sh (map_assign h sh m)"

definition installHost :: "string \<Rightarrow> Shard \<Rightarrow> StaticShardInfo \<Rightarrow> StaticShardInfo" where
  "installHost host sh s =
     (let s1 = s\<lparr>lookup := map_assign host sh (lookup s)\<rparr>;
          c = s_cs sh
      in if cs_type c = SET then
           (let s2 = (if getSetName c \<noteq> []
                      then s1\<lparr>rsLookup := map_assign (getSetName c) sh (rsLookup s1)\<rparr>
                      else s1)
            in s2\<lparr>lookup := installServers (getServers c) sh (lookup s2)\<rparr>)
         else s1)"

text \<open>\<open>StaticShardInfo::set(name, s, setName, setAddr)\<close>.\<close>

definition set_shard ::
  "string \<Rightarrow> Shard \<Rightarrow> bool \<Rightarrow> bool \<Rightarrow> StaticShardInfo \<Rightarrow> StaticShardInfo" where
  "set_shard n sh setName setAddr s =
     (let s1 = (if setName then s\<lparr>lookup := map_assign n sh (lookup s)\<rparr> else s)
      in if setAddr then installHost (s_addr sh) sh s1 else s1)"

subsection \<open>\<open>reload\<close>\<close>

text \<open>The first half of \<open>reload\<close> under the lock: \<open>_lookup\<close> is cleared, the entry under
  the key \<open>"config"\<close> is put back when there was one, and \<open>_rsLookup\<close> is cleared.\<close>

definition reload_clear :: "StaticShardInfo \<Rightarrow> StaticShardInfo" where
  "reload_clear s =
     (case map_find (lookup s) ''config'' of
        Some config \<Rightarrow> s\<lparr>lookup := map_assign ''config'' config [], rsLookup := []\<rparr>
      | None \<Rightarrow> s\<lparr>lookup := [], rsLookup := []\<rparr>)"

text \<open>The record that one iteration of the loop builds from a catalog document.\<close>

definition mkShard :: "Env \<Rightarrow> ShardType \<Rightarrow> Shard" where
  "mkShard env sd = Shard_ctor env (getName sd) (getHost sd) (getMaxSize sd) (getDraining sd)"

text \<open>The loop of \<open>reload\<close>. \<open>uassertStatusOK\<close> throws out of the loop, and the state is
  then whatever the iterations before it left.\<close>

fun reload_loop ::
  "Env \<Rightarrow> ShardType list \<Rightarrow> StaticShardInfo \<Rightarrow> (error + unit) \<times> StaticShardInfo" where
  "reload_loop env [] s = (Inr (), s)"
| "reload_loop env (shardData # rest) s =
     (case validate env shardData of
        NotOK code \<Rightarrow> (Inl (UserException code), s)
      | OK \<Rightarrow>
          (let sh = mkShard env shardData;
               s1 = s\<lparr>lookup := map_assign (getName shardData) sh (lookup s)\<rparr>
           in reload_loop env rest (installHost (getHost shardData) sh s1)))"

definition reload :: "Env \<Rightarrow> StaticShardInfo \<Rightarrow> (error + unit) \<times> StaticShardInfo" where
  "reload env s =
     (case catalog env (catalogCalls s) of
        (status, shards) \<Rightarrow>
          (let s0 = s\<lparr>catalogCalls := Suc (catalogCalls s)\<rparr>
           in if status \<noteq> OK then (Inl (MsgAssertionException 13632), s0)
              else reload_loop env shards (reload_clear s0)))"

text \<open>One iteration of the loop of \<open>reload\<close> once \<open>validate\<close> has passed.\<close>

definition reload_step :: "Env \<Rightarrow> ShardType \<Rightarrow> StaticShardInfo \<Rightarrow> StaticShardInfo" where
  "reload_step env sd s =
     installHost (getHost sd) (mkShard env sd)
       (s\<lparr>lookup := map_assign (getName sd) (mkShard env sd) (lookup s)\<rparr>)"

subsection \<open>Lookups\<close>

text \<open>\<open>StaticShardInfo::find\<close>; a \<open>ShardPtr\<close> is \<open>None\<close> when null.\<close>

definition find_shard :: "Env \<Rightarrow> string \<Rightarrow> StaticShardInfo \<Rightarrow> error + Shard option" where
  "find_shard env ident s =
     (case parse env ident of
        (connStr, errmsg) \<Rightarrow>
          if errmsg \<noteq> [] then Inl (UserException 18642)
          else if cs_type connStr = SET then Inr (map_find (rsLookup s) (getSetName connStr))
          else Inr (map_find (lookup s) ident))"

text \<open>\<open>StaticShardInfo::findWithRetry\<close>.\<close>

definition findWithRetry ::
  "Env \<Rightarrow> string \<Rightarrow> StaticShardInfo \<Rightarrow> (error + Shard option) \<times> StaticShardInfo" where
  "findWithRetry env ident s =
     (case find_shard env ident s of
        Inl e \<Rightarrow> (Inl e, s)
      | Inr (Some sh) \<Rightarrow> (Inr (Some sh), s)
      | Inr None \<Rightarrow>
          (case reload env s of
             (Inl e, s1) \<Rightarrow> (Inl e, s1)
           | (Inr u, s1) \<Rightarrow>
               (case find_shard env ident s1 of
                  Inl e \<Rightarrow> (Inl e, s1)
                | Inr None \<Rightarrow> (Inl (MsgAssertionException 13129), s1)
                | Inr (Some sh) \<Rightarrow> (Inr (Some sh), s1))))"

text \<open>\<open>StaticShardInfo::lookupRSName\<close>. It returns the state as well, like the operations
  that can change it.\<close>

definition lookupRSName :: "string \<Rightarrow> StaticShardInfo \<Rightarrow> Shard \<times> StaticShardInfo" where
  "lookupRSName n s =
     (case map_find (rsLookup s) n of None \<Rightarrow> (EMPTY, s) | Some sh \<Rightarrow> (sh, s))"

subsection \<open>\<open>remove\<close> and \<open>getAllShards\<close>\<close>

text \<open>One of the two erase loops of \<open>remove\<close>.\<close>

fun remove_loop :: "string \<Rightarrow> ShardMap \<Rightarrow> ShardMap" where
  "remove_loop n [] = []"
| "remove_loop n ((k, sh) # rest) =
     (if s_name sh = n then remove_loop n rest else (k, sh) # remove_loop n rest)"

definition remove_shard :: "string \<Rightarrow> StaticShardInfo \<Rightarrow> StaticShardInfo" where
  "remove_shard n s =
     s\<lparr>lookup := remove_loop n (lookup s), rsLookup := remove_loop n (rsLookup s)\<rparr>"

text \<open>The loop of \<open>getAllShards(vector<Shard>& all)\<close>, with the set \<open>seen\<close> and the vector
  it appends to.\<close>

fun getAllShards_loop :: "ShardMap \<Rightarrow> string set \<Rightarrow> Shard list \<Rightarrow> Shard list" where
  "getAllShards_loop [] seen all = all"
| "getAllShards_loop ((k, sh) # rest) seen all =
     (if s_name sh = ''config'' then getAllShards_loop rest seen all
      else if s_name sh \<in> seen then getAllShards_loop rest seen all
      else getAllShards_loop rest (insert (s_name sh) seen) (all @ [sh]))"

definition getAllShards :: "StaticShardInfo \<Rightarrow> Shard list \<Rightarrow> Shard list" where
  "getAllShards s all = getAllShards_loop (lookup s) {} all"

subsection \<open>\<open>Shard::containsNode\<close>\<close>

text \<open>The result and the lines written to the log by \<open>warning()\<close>.\<close>

definition containsNode :: "Env \<Rightarrow> Shard \<Rightarrow> string \<Rightarrow> (error + bool) \<times> string list" where
  "containsNode env sh node =
     (if s_addr sh = node then (Inr True, [])
      else if cs_type (s_cs sh) = SET then
        (case rsMonitorGet env (getSetName (s_cs sh)) of
           None \<Rightarrow>
             (Inr False, [''Monitor not found for a known shard: '' @ getSetName (s_cs sh)])
         | Some rs \<Rightarrow> (rs node, []))
      else (Inr False, []))"

subsection \<open>The status probes and \<open>Shard::pick\<close>\<close>

definition getShardMongoVersion :: "Env \<Rightarrow> string \<Rightarrow> error + string" where
  "getShardMongoVersion env shardHost =
     (case runCommand env shardHost ''serverStatus'' of
        (ok, serverStatus) \<Rightarrow>
          if \<not> ok then Inl (UserException 28598)
          else (case serverStatus ''version'' of
                  BString v \<Rightarrow> Inr v
                | _ \<Rightarrow> Inl (UserException 28589)))"

definition getShardDataSizeBytes :: "Env \<Rightarrow> string \<Rightarrow> error + int" where
  "getShardDataSizeBytes env shardHost =
     (case runCommand env shardHost ''listDatabases'' of
        (ok, listDatabases) \<Rightarrow>
          if \<not> ok then Inl (UserException 28599)
          else (case listDatabases ''totalSize'' of
                  BNumber n \<Rightarrow> Inr n
                | _ \<Rightarrow> Inl (UserException 28590)))"

text \<open>\<open>Shard::getStatus\<close>. The two probes are arguments of one constructor call, and C++
  does not fix which runs first; the model runs the version probe first, as compilers that
  evaluate the last argument first do. No statement below depends on which error wins when
  both probes fail.\<close>

definition getStatus :: "Env \<Rightarrow> Shard \<Rightarrow> error + ShardStatus" where
  "getStatus env sh =
     (case getShardMongoVersion env (s_addr sh) of
        Inl e \<Rightarrow> Inl e
      | Inr v \<Rightarrow>
          (case getShardDataSizeBytes env (s_addr sh) of
             Inl e \<Rightarrow> Inl e
           | Inr sz \<Rightarrow> Inr \<lparr>shard = sh, dataSizeBytes = sz, mongoVersion = v\<rparr>))"

text \<open>The loop of \<open>pick\<close> over the vector \<open>all\<close>, carrying \<open>best\<close>.\<close>

fun pick_loop :: "Env \<Rightarrow> Shard list \<Rightarrow> ShardStatus \<Rightarrow> error + ShardStatus" where
  "pick_loop env [] best = Inr best"
| "pick_loop env (sh # rest) best =
     (case getStatus env sh of
        Inl e \<Rightarrow> Inl e
      | Inr t \<Rightarrow> pick_loop env rest (if statusLess env t best then t else best))"

text \<open>\<open>pick\<close> from the seeding of \<open>best\<close> on, for the non-empty vector \<open>a0 # rest\<close>.\<close>

definition pick_best :: "Env \<Rightarrow> Shard \<Rightarrow> Shard \<Rightarrow> Shard list \<Rightarrow> error + Shard" where
  "pick_best env current a0 rest =
     (case getStatus env a0 of
        Inl e \<Rightarrow> Inl e
      | Inr b0 \<Rightarrow>
          (case (if Shard_ne current EMPTY then getStatus env current else Inr b0) of
             Inl e \<Rightarrow> Inl e
           | Inr best \<Rightarrow>
               (case pick_loop env (a0 # rest) best of
                  Inl e \<Rightarrow> Inl e
                | Inr b \<Rightarrow> Inr (shard b))))"

definition pick :: "Env \<Rightarrow> Shard \<Rightarrow> StaticShardInfo \<Rightarrow> (error + Shard) \<times> StaticShardInfo" where
  "pick env current s =
     (case getAllShards s [] of
        [] \<Rightarrow>
          (case reload env s of
             (Inl e, s1) \<Rightarrow> (Inl e, s1)
           | (Inr u, s1) \<Rightarrow>
               (case getAllShards s1 [] of
                  [] \<Rightarrow> (Inr EMPTY, s1)
                | a0 # rest \<Rightarrow> (pick_best env current a0 rest, s1)))
      | a0 # rest \<Rightarrow> (pick_best env current a0 rest, s))"

subsection \<open>The keys a catalog document is installed under\<close>

text \<open>The keys of \<open>_lookup\<close> that one iteration of the loop of \<open>reload\<close> writes: the name,
  the host string and, for a replica set, every member.\<close>

definition primaryKeys :: "Env \<Rightarrow> ShardType \<Rightarrow> string set" where
  "primaryKeys env sd =
     {getName sd, getHost sd} \<union>
     (if cs_type (s_cs (mkShard env sd)) = SET
      then set (getServers (s_cs (mkShard env sd))) else {})"

text \<open>The key of \<open>_rsLookup\<close> that the iteration writes, if any.\<close>

definition rsKeys :: "Env \<Rightarrow> ShardType \<Rightarrow> string set" where
  "rsKeys env sd =
     (if cs_type (s_cs (mkShard env sd)) = SET \<and> getSetName (s_cs (mkShard env sd)) \<noteq> []
      then {getSetName (s_cs (mkShard env sd))} else {})"

text \<open>An identifier that \<open>find\<close> looks up in \<open>_lookup\<close>, and one that it looks up in
  \<open>_rsLookup\<close> under the set name \<open>n\<close>.\<close>

definition parsesPlain :: "Env \<Rightarrow> string \<Rightarrow> bool" where
  "parsesPlain env ident =
     (snd (parse env ident) = [] \<and> cs_type (fst (parse env ident)) \<noteq> SET)"

definition parsesSet :: "Env \<Rightarrow> string \<Rightarrow> string \<Rightarrow> bool" where
  "parsesSet env ident n =
     (snd (parse env ident) = [] \<and> cs_type (fst (parse env ident)) = SET \<and>
      getSetName (fst (parse env ident)) = n)"

subsection \<open>Concrete collaborators\<close>

text \<open>Splitting a string at every occurrence of a character.\<close>

fun splitOn :: "char \<Rightarrow> string \<Rightarrow> string \<Rightarrow> string list" where
  "splitOn c acc [] = [acc]"
| "splitOn c acc (x # xs) = (if x = c then acc # splitOn c [] xs else splitOn c (acc @ [x]) xs)"

text \<open>Modelled from the spec: the constructor \<open>ConnectionString(addr, SET)\<close> is defined
  outside this file. The spec says that a raw address string is parsed as a replica-set
  descriptor (set name, then the member hosts) if it matches that syntax, and is otherwise
  treated as a single host; the syntax taken here is \<open>name/host,host,...\<close>.\<close>

definition spec_connStrSET :: "string \<Rightarrow> ConnectionString" where
  "spec_connStrSET a =
     (if CHR ''/'' \<in> set a
      then \<lparr>cs_type = SET,
            getSetName = takeWhile (\<lambda>c. c \<noteq> CHR ''/'') a,
            getServers = splitOn CHR '','' [] (tl (dropWhile (\<lambda>c. c \<noteq> CHR ''/'') a))\<rparr>
      else \<lparr>cs_type = MASTER, getSetName = [], getServers = [a]\<rparr>)"

text \<open>Modelled from the spec: \<open>ConnectionString::parse\<close> is defined outside this file. The
  spec says that an identifier that parses as a replica-set connection string is looked up
  by set name, any other in the primary table, and that a syntactically invalid one is an
  error; the empty string is taken as the invalid one.\<close>

definition spec_parse :: "string \<Rightarrow> ConnectionString \<times> string" where
  "spec_parse ident =
     (if ident = [] then (ConnectionString_default, ''invalid hostname'')
      else (spec_connStrSET ident, []))"

text \<open>Modelled from the spec: \<open>ShardType::validate\<close> is defined outside this file. The spec
  says that a record is accepted when its name is not empty and its descriptor is
  well-formed.\<close>

definition spec_validate :: "ShardType \<Rightarrow> Status" where
  "spec_validate sd = (if getName sd = [] \<or> getHost sd = [] then NotOK 4 else OK)"

text \<open>Modelled from the spec: \<open>ShardStatus::operator<\<close> is defined in the header. The spec
  says that the lower load wins and names the data size as the primary key.\<close>

definition spec_statusLess :: "ShardStatus \<Rightarrow> ShardStatus \<Rightarrow> bool" where
  "spec_statusLess a b = (dataSizeBytes a < dataSizeBytes b)"

text \<open>A world for concrete runs: the catalog and the shards' replies are given, no
  replica-set monitor is known.\<close>

definition specEnv ::
  "(nat \<Rightarrow> Status \<times> ShardType list) \<Rightarrow> (string \<Rightarrow> string \<Rightarrow> bool \<times> BSONObj) \<Rightarrow> Env" where
  "specEnv cat run =
     \<lparr>catalog = cat, validate = spec_validate, connStrSET = spec_connStrSET,
      parse = spec_parse, rsMonitorGet = (\<lambda>n. None), runCommand = run,
      statusLess = spec_statusLess\<rparr>"

text \<open>Shards that answer no command.\<close>

definition noReply :: "string \<Rightarrow> string \<Rightarrow> bool \<times> BSONObj" where
  "noReply host cmd = (False, (\<lambda>f. EOO))"

subsection \<open>Concrete catalog documents\<close>

text \<open>A replica-set shard, a single-host shard, a second shard on the same host as \<open>docB\<close>,
  a shard whose host string is \<open>config\<close>, and a document without a name.\<close>

definition docA :: ShardType where
  "docA = \<lparr>getName = ''A'', getHost = ''rsA/h1:1,h2:1'', getMaxSize = 0, getDraining = False\<rparr>"

definition docB :: ShardType where
  "docB = \<lparr>getName = ''B'', getHost = ''hb:1'', getMaxSize = 0, getDraining = False\<rparr>"

definition docB2 :: ShardType where
  "docB2 = \<lparr>getName = ''B2'', getHost = ''hb:1'', getMaxSize = 0, getDraining = False\<rparr>"

definition docH :: ShardType where
  "docH = \<lparr>getName = ''s1'', getHost = ''config'', getMaxSize = 0, getDraining = False\<rparr>"

definition docBad :: ShardType where
  "docBad = \<lparr>getName = [], getHost = ''hx:1'', getMaxSize = 0, getDraining = False\<rparr>"

text \<open>The record installed for the config servers.\<close>

definition configShard :: Shard where
  "configShard =
     \<lparr>s_name = ''config'', s_addr = ''cfg1:27019'',
      s_cs = \<lparr>cs_type = MASTER, getSetName = [], getServers = [''cfg1:27019'']\<rparr>,
      s_maxSizeMB = 0, s_isDraining = False\<rparr>"

subsection \<open>A concrete world\<close>

text \<open>A catalog that always lists \<open>docA\<close> and \<open>docB\<close>, and the cache after the config
  record was installed with \<open>set("config", configShard, true, false)\<close> and one \<open>reload\<close>
  ran.\<close>

definition demoEnv :: Env where
  "demoEnv = specEnv (\<lambda>n. (OK, [docA, docB])) noReply"

definition demoState :: StaticShardInfo where
  "demoState = snd (reload demoEnv (set_shard ''config'' configShard True False initial))"

text \<open>The same world with a monitor for the set \<open>rsA\<close> that knows its two members.\<close>

definition monEnv :: Env where
  "monEnv =
     demoEnv\<lparr>rsMonitorGet :=
       (\<lambda>n. if n = ''rsA'' then Some (\<lambda>node. Inr (node = ''h1:1'' \<or> node = ''h2:1''))
            else None)\<rparr>"

text \<open>A catalog that lists a document without a name from its second call on, one that
  fails from its second call on, and one that gains the shard \<open>docA\<close> after its first
  call; \<open>growState\<close> is the cache after one \<open>reload\<close> from the last.\<close>

definition failEnv :: Env where
  "failEnv =
     specEnv (\<lambda>n. if n = 0 then (OK, [docA, docB]) else (OK, [docB, docBad, docA])) noReply"

definition downEnv :: Env where
  "downEnv = specEnv (\<lambda>n. if n = 0 then (OK, [docA, docB]) else (NotOK 6, [])) noReply"

definition growEnv :: Env where
  "growEnv = specEnv (\<lambda>n. if n = 0 then (OK, [docB]) else (OK, [docB, docA])) noReply"

definition growState :: StaticShardInfo where
  "growState = snd (reload growEnv initial)"

text \<open>Shards that answer both probes: \<open>listDatabases\<close> with a total size (\<open>szA\<close> on the host
  string of \<open>docA\<close>, \<open>szB\<close> elsewhere) and \<open>serverStatus\<close> with a version. In \<open>pickEnv szB\<close>
  the shard \<open>A\<close> holds 100 MB.\<close>

definition sizedReply :: "int \<Rightarrow> int \<Rightarrow> string \<Rightarrow> string \<Rightarrow> bool \<times> BSONObj" where
  "sizedReply szA szB host cmd =
     (if cmd = ''listDatabases''
      then (True, (\<lambda>f. if f = ''totalSize''
                        then BNumber (if host = ''rsA/h1:1,h2:1'' then szA else szB) else EOO))
      else if cmd = ''serverStatus''
      then (True, (\<lambda>f. if f = ''version'' then BString ''3.1.0'' else EOO))
      else (False, (\<lambda>f. EOO)))"

definition pickEnv :: "int \<Rightarrow> Env" where
  "pickEnv szB = demoEnv\<lparr>runCommand := sizedReply (100 * 1024 * 1024) szB\<rparr>"

text \<open>A catalog with two shards on one host, and one with a shard whose host string is
  \<open>config\<close>.\<close>

definition dupEnv :: Env where
  "dupEnv = specEnv (\<lambda>n. (OK, [docB, docB2])) noReply"

definition hostEnv :: Env where
  "hostEnv = specEnv (\<lambda>n. (OK, [docH])) noReply"

subsection \<open>Reachable states\<close>

text \<open>The states that the mutating operations of the class produce from the initial one.
  \<open>findWithRetry\<close> and \<open>pick\<close> change the state through \<open>reload\<close> only.\<close>

inductive reachable :: "Env \<Rightarrow> StaticShardInfo \<Rightarrow> bool" for env :: Env where
  r_initial: "reachable env initial"
| r_reload: "reachable env s \<Longrightarrow> reachable env (snd (reload env s))"
| r_set: "reachable env s \<Longrightarrow> reachable env (set_shard n sh a b s)"
| r_remove: "reachable env s \<Longrightarrow> reachable env (remove_shard n s)"

section \<open>Facts about the tables\<close>

lemma map_find_assign:
  "map_find (map_assign k v m) k' = (if k' = k then Some v else map_find m k')"
  by (induction m) auto

lemma map_find_None_iff: "map_find m k = None \<longleftrightarrow> k \<notin> fst ` set m"
  by (induction m) (auto simp: image_iff split: if_splits)

lemma keys_assign: "fst ` set (map_assign k v m) = insert k (fst ` set m)"
proof (rule set_eqI)
  fix x
  have "x \<in> fst ` set (map_assign k v m) \<longleftrightarrow> map_find (map_assign k v m) x \<noteq> None"
    by (simp add: map_find_None_iff)
  also have "\<dots> \<longleftrightarrow> x = k \<or> map_find m x \<noteq> None"
    by (simp add: map_find_assign)
  also have "\<dots> \<longleftrightarrow> x \<in> insert k (fst ` set m)"
    by (simp add: map_find_None_iff)
  finally show "x \<in> fst ` set (map_assign k v m) \<longleftrightarrow> x \<in> insert k (fst ` set m)" .
qed

lemma map_find_Some_mem: "map_find m k = Some v \<Longrightarrow> (k, v) \<in> set m"
  by (induction m) (auto split: if_splits)

lemma wf_map_assign: "wf_map m \<Longrightarrow> wf_map (map_assign k v m)"
proof (induction m)
  case Nil
  then show ?case by (simp add: wf_map_def)
next
  case (Cons p m)
  obtain k' v' where p: "p = (k', v')" by (cases p)
  from Cons.prems have tl: "wf_map m" and hd: "\<forall>x\<in>fst ` set m. k' < x"
    by (simp_all add: wf_map_def p)
  have ih: "wf_map (map_assign k v m)" using Cons.IH tl .
  show ?case
  proof (cases "k = k'")
    case True
    with Cons.prems show ?thesis by (simp add: wf_map_def p)
  next
    case False
    show ?thesis
    proof (cases "k < k'")
      case True
      with False tl hd show ?thesis
        by (auto simp: wf_map_def p)
    next
      case ge: False
      with False have "k' < k" by simp
      with False ge ih hd show ?thesis
        by (simp add: wf_map_def p keys_assign)
    qed
  qed
qed

lemma wf_map_find_mem: "wf_map m \<Longrightarrow> (k, v) \<in> set m \<Longrightarrow> map_find m k = Some v"
proof (induction m)
  case Nil
  then show ?case by simp
next
  case (Cons p m)
  obtain k' v' where p: "p = (k', v')" by (cases p)
  from Cons.prems(1) have tl: "wf_map m" and hd: "\<forall>x\<in>set m. k' < fst x"
    by (simp_all add: wf_map_def p)
  show ?case
  proof (cases "(k, v) = (k', v')")
    case True
    then show ?thesis by (simp add: p)
  next
    case False
    with Cons.prems(2) have mem: "(k, v) \<in> set m" by (auto simp: p)
    with hd have "k' < k" by fastforce
    with Cons.IH [OF tl mem] show ?thesis by (simp add: p)
  qed
qed

subsection \<open>\<open>remove\<close>\<close>

lemma remove_loop_filter: "remove_loop n m = filter (\<lambda>(k, sh). s_name sh \<noteq> n) m"
  by (induction m) auto

lemma wf_map_remove_loop: "wf_map m \<Longrightarrow> wf_map (remove_loop n m)"
  unfolding wf_map_def remove_loop_filter
  by (induction m) (auto simp: sorted_wrt_map)

lemma remove_loop_keeps:
  "map_find m k = Some sh \<Longrightarrow> s_name sh \<noteq> n \<Longrightarrow> map_find (remove_loop n m) k = Some sh"
  by (induction m) (auto split: if_splits)

lemma remove_loop_mem_iff:
  "(k, sh) \<in> set (remove_loop n m) \<longleftrightarrow> (k, sh) \<in> set m \<and> s_name sh \<noteq> n"
  by (auto simp: remove_loop_filter)

lemma remove_loop_find_wf:
  assumes "wf_map m"
  shows "map_find (remove_loop n m) k =
           (case map_find m k of
              None \<Rightarrow> None
            | Some sh \<Rightarrow> if s_name sh = n then None else Some sh)"
proof (cases "map_find m k")
  case None
  then have "k \<notin> fst ` set m" by (simp add: map_find_None_iff)
  then have "k \<notin> fst ` set (remove_loop n m)"
    by (auto simp: remove_loop_filter)
  then have "map_find (remove_loop n m) k = None" by (simp add: map_find_None_iff)
  then show ?thesis using None by simp
next
  case (Some sh)
  show ?thesis
  proof (cases "s_name sh = n")
    case False
    with Some show ?thesis by (simp add: remove_loop_keeps)
  next
    case True
    have "map_find (remove_loop n m) k = None"
    proof (rule ccontr)
      assume "map_find (remove_loop n m) k \<noteq> None"
      then obtain sh' where f: "map_find (remove_loop n m) k = Some sh'" by auto
      then have mem: "(k, sh') \<in> set m" and nm: "s_name sh' \<noteq> n"
        using map_find_Some_mem [OF f] by (simp_all add: remove_loop_mem_iff)
      from wf_map_find_mem [OF assms mem] Some have "sh' = sh" by simp
      with nm True show False by simp
    qed
    with Some True show ?thesis by simp
  qed
qed

text \<open>\<open>remove\<close> goes by the name of the record, not by the key: an entry whose record has
  another name stays, whatever its key.\<close>

lemma remove_other_name_stays:
  "map_find (lookup s) k = Some sh \<Longrightarrow> s_name sh \<noteq> n \<Longrightarrow>
   map_find (lookup (remove_shard n s)) k = Some sh"
  by (simp add: remove_shard_def remove_loop_keeps)

subsection \<open>\<open>getAllShards\<close>\<close>

lemma getAllShards_loop_names:
  "distinct (map s_name all) \<Longrightarrow> set (map s_name all) \<subseteq> seen \<Longrightarrow>
   ''config'' \<notin> set (map s_name all) \<Longrightarrow>
   distinct (map s_name (getAllShards_loop m seen all)) \<and>
   ''config'' \<notin> set (map s_name (getAllShards_loop m seen all))"
proof (induction m seen all rule: getAllShards_loop.induct)
  case (1 seen all)
  then show ?case by simp
next
  case (2 k sh rest seen all)
  show ?case
  proof (cases "s_name sh = ''config'' \<or> s_name sh \<in> seen")
    case True
    with 2 show ?thesis by auto
  next
    case False
    then have a: "s_name sh \<noteq> ''config''" and b: "s_name sh \<notin> seen" by simp_all
    from b "2.prems"(2) have fresh: "s_name sh \<notin> set (map s_name all)" by blast
    have "distinct (map s_name (getAllShards_loop rest (insert (s_name sh) seen) (all @ [sh]))) \<and>
          ''config'' \<notin> set (map s_name (getAllShards_loop rest (insert (s_name sh) seen) (all @ [sh])))"
    proof (rule "2.IH"(3) [OF a b])
      show "distinct (map s_name (all @ [sh]))" using "2.prems"(1) fresh by simp
      show "set (map s_name (all @ [sh])) \<subseteq> insert (s_name sh) seen"
        using "2.prems"(2) by auto
      show "''config'' \<notin> set (map s_name (all @ [sh]))" using "2.prems"(3) a by auto
    qed
    with a b show ?thesis by simp
  qed
qed

subsection \<open>\<open>_installHost\<close> and \<open>set\<close>\<close>

lemma installServers_find:
  "map_find (installServers hs sh m) k = (if k \<in> set hs then Some sh else map_find m k)"
  by (induction hs arbitrary: m) (auto simp: map_find_assign)

lemma wf_installServers: "wf_map m \<Longrightarrow> wf_map (installServers hs sh m)"
  by (induction hs arbitrary: m) (auto simp: wf_map_assign)

lemma installHost_lookup:
  "map_find (lookup (installHost h sh s)) k =
     (if k = h \<or> (cs_type (s_cs sh) = SET \<and> k \<in> set (getServers (s_cs sh)))
      then Some sh else map_find (lookup s) k)"
  by (simp add: installHost_def Let_def installServers_find map_find_assign)

lemma installHost_rsLookup:
  "map_find (rsLookup (installHost h sh s)) k =
     (if cs_type (s_cs sh) = SET \<and> getSetName (s_cs sh) \<noteq> [] \<and> k = getSetName (s_cs sh)
      then Some sh else map_find (rsLookup s) k)"
  by (simp add: installHost_def Let_def map_find_assign)

lemma installHost_calls: "catalogCalls (installHost h sh s) = catalogCalls s"
  by (simp add: installHost_def Let_def)

lemma wf_installHost: "wf_state s \<Longrightarrow> wf_state (installHost h sh s)"
  by (simp add: installHost_def Let_def wf_state_def wf_installServers wf_map_assign)

lemma wf_set_shard:
  assumes "wf_state s"
  shows "wf_state (set_shard n sh a b s)"
proof -
  have "wf_state (s\<lparr>lookup := map_assign n sh (lookup s)\<rparr>)"
    using assms by (simp add: wf_state_def wf_map_assign)
  with assms show ?thesis by (simp add: set_shard_def Let_def wf_installHost)
qed

lemma set_shard_calls: "catalogCalls (set_shard n sh a b s) = catalogCalls s"
  by (simp add: set_shard_def Let_def installHost_calls)

lemma set_shard_lookup_name: "map_find (lookup (set_shard n sh True b s)) n = Some sh"
  by (simp add: set_shard_def Let_def installHost_lookup map_find_assign)

lemma wf_remove_shard: "wf_state s \<Longrightarrow> wf_state (remove_shard n s)"
  by (simp add: remove_shard_def wf_state_def wf_map_remove_loop)

lemma wf_initial: "wf_state initial"
  by (simp add: initial_def wf_state_def wf_map_def)

subsection \<open>\<open>reload\<close>\<close>

lemma mkShard_fields:
  "s_name (mkShard env sd) = getName sd" "s_addr (mkShard env sd) = getHost sd"
  "s_maxSizeMB (mkShard env sd) = getMaxSize sd" "s_isDraining (mkShard env sd) = getDraining sd"
  by (simp_all add: mkShard_def Shard_ctor_def Shard_setAddr_def Let_def)

lemma reload_step_lookup:
  "map_find (lookup (reload_step env sd s)) k =
     (if k \<in> primaryKeys env sd then Some (mkShard env sd) else map_find (lookup s) k)"
  by (auto simp: reload_step_def installHost_lookup primaryKeys_def map_find_assign)

lemma reload_step_rsLookup:
  "map_find (rsLookup (reload_step env sd s)) k =
     (if k \<in> rsKeys env sd then Some (mkShard env sd) else map_find (rsLookup s) k)"
  by (auto simp: reload_step_def installHost_rsLookup rsKeys_def)

lemma reload_step_calls: "catalogCalls (reload_step env sd s) = catalogCalls s"
  by (simp add: reload_step_def installHost_calls)

lemma wf_reload_step: "wf_state s \<Longrightarrow> wf_state (reload_step env sd s)"
  unfolding reload_step_def
  by (rule wf_installHost) (simp add: wf_state_def wf_map_assign)

lemma reload_loop_Cons:
  "reload_loop env (sd # rest) s =
     (case validate env sd of
        NotOK code \<Rightarrow> (Inl (UserException code), s)
      | OK \<Rightarrow> reload_loop env rest (reload_step env sd s))"
  by (simp add: reload_step_def Let_def split: Status.splits)

lemma reload_loop_calls: "catalogCalls (snd (reload_loop env xs s)) = catalogCalls s"
  by (induction xs arbitrary: s)
     (simp_all add: reload_loop_Cons reload_step_calls split: Status.splits del: reload_loop.simps(2))

lemma wf_reload_loop: "wf_state s \<Longrightarrow> wf_state (snd (reload_loop env xs s))"
  by (induction xs arbitrary: s)
     (simp_all add: reload_loop_Cons wf_reload_step split: Status.splits del: reload_loop.simps(2))

lemma reload_clear_lookup:
  "map_find (lookup (reload_clear s)) k =
     (if k = ''config'' then map_find (lookup s) ''config'' else None)"
  by (simp add: reload_clear_def split: option.splits)

lemma reload_clear_rsLookup: "rsLookup (reload_clear s) = []"
  by (simp add: reload_clear_def split: option.splits)

lemma reload_clear_calls: "catalogCalls (reload_clear s) = catalogCalls s"
  by (simp add: reload_clear_def split: option.splits)

lemma wf_reload_clear: "wf_state (reload_clear s)"
  by (simp add: reload_clear_def wf_state_def wf_map_def split: option.splits)

lemma wf_reload:
  assumes "wf_state s"
  shows "wf_state (snd (reload env s))"
proof (cases "catalog env (catalogCalls s)")
  case (Pair st xs)
  show ?thesis
  proof (cases "st = OK")
    case True
    with Pair show ?thesis
      by (simp add: reload_def Let_def wf_reload_loop [OF wf_reload_clear])
  next
    case False
    with Pair assms show ?thesis by (simp add: reload_def Let_def wf_state_def)
  qed
qed

lemma reload_calls: "catalogCalls (snd (reload env s)) = Suc (catalogCalls s)"
  by (simp add: reload_def Let_def reload_loop_calls reload_clear_calls split: prod.splits)

lemma reload_success:
  assumes "reload env s = (Inr u, s')"
  shows "fst (catalog env (catalogCalls s)) = OK \<and>
         reload_loop env (snd (catalog env (catalogCalls s)))
           (reload_clear (s\<lparr>catalogCalls := Suc (catalogCalls s)\<rparr>)) = (Inr u, s')"
  using assms by (auto simp: reload_def Let_def split: prod.splits if_splits)

text \<open>A key that no document of the list is installed under keeps the value it had
  before the loop; a key of a document that no later document is installed under holds
  the record of that document after the loop.\<close>

lemma reload_loop_frame:
  "reload_loop env xs s = (Inr u, s') \<Longrightarrow> \<forall>x\<in>set xs. k \<notin> primaryKeys env x \<Longrightarrow>
   map_find (lookup s') k = map_find (lookup s) k"
proof (induction xs arbitrary: s)
  case Nil
  then show ?case by simp
next
  case (Cons sd xs)
  from Cons.prems(1) have ok: "validate env sd = OK"
    by (cases "validate env sd") (simp_all add: reload_loop_Cons del: reload_loop.simps(2))
  with Cons.prems(1) have rest: "reload_loop env xs (reload_step env sd s) = (Inr u, s')"
    by (simp add: reload_loop_Cons del: reload_loop.simps(2))
  from Cons.prems(2) have "\<forall>x\<in>set xs. k \<notin> primaryKeys env x" and here: "k \<notin> primaryKeys env sd"
    by simp_all
  with Cons.IH [OF rest] show ?case by (simp add: reload_step_lookup)
qed

lemma reload_loop_rs_frame:
  "reload_loop env xs s = (Inr u, s') \<Longrightarrow> \<forall>x\<in>set xs. k \<notin> rsKeys env x \<Longrightarrow>
   map_find (rsLookup s') k = map_find (rsLookup s) k"
proof (induction xs arbitrary: s)
  case Nil
  then show ?case by simp
next
  case (Cons sd xs)
  from Cons.prems(1) have ok: "validate env sd = OK"
    by (cases "validate env sd") (simp_all add: reload_loop_Cons del: reload_loop.simps(2))
  with Cons.prems(1) have rest: "reload_loop env xs (reload_step env sd s) = (Inr u, s')"
    by (simp add: reload_loop_Cons del: reload_loop.simps(2))
  from Cons.prems(2) have "\<forall>x\<in>set xs. k \<notin> rsKeys env x" and here: "k \<notin> rsKeys env sd"
    by simp_all
  with Cons.IH [OF rest] show ?case by (simp add: reload_step_rsLookup)
qed

lemma reload_loop_split:
  "reload_loop env (pre @ sd # post) s = (Inr u, s') \<Longrightarrow>
   \<exists>s0. reload_loop env post (reload_step env sd s0) = (Inr u, s')"
proof (induction pre arbitrary: s)
  case Nil
  then have ok: "validate env sd = OK"
    by (cases "validate env sd") (simp_all add: reload_loop_Cons del: reload_loop.simps(2))
  with Nil show ?case by (auto simp: reload_loop_Cons simp del: reload_loop.simps(2))
next
  case (Cons x pre)
  from Cons.prems have ok: "validate env x = OK"
    by (cases "validate env x") (simp_all add: reload_loop_Cons del: reload_loop.simps(2))
  with Cons.prems have "reload_loop env (pre @ sd # post) (reload_step env x s) = (Inr u, s')"
    by (simp add: reload_loop_Cons del: reload_loop.simps(2))
  then show ?case by (rule Cons.IH)
qed

lemma reload_loop_installed:
  assumes "reload_loop env (pre @ sd # post) s = (Inr u, s')"
      and "k \<in> primaryKeys env sd" and "\<forall>x\<in>set post. k \<notin> primaryKeys env x"
  shows "map_find (lookup s') k = Some (mkShard env sd)"
proof -
  from reload_loop_split [OF assms(1)] obtain s0
    where "reload_loop env post (reload_step env sd s0) = (Inr u, s')" by blast
  from reload_loop_frame [OF this assms(3)] assms(2) show ?thesis
    by (simp add: reload_step_lookup)
qed

lemma reload_loop_rs_installed:
  assumes "reload_loop env (pre @ sd # post) s = (Inr u, s')"
      and "k \<in> rsKeys env sd" and "\<forall>x\<in>set post. k \<notin> rsKeys env x"
  shows "map_find (rsLookup s') k = Some (mkShard env sd)"
proof -
  from reload_loop_split [OF assms(1)] obtain s0
    where "reload_loop env post (reload_step env sd s0) = (Inr u, s')" by blast
  from reload_loop_rs_frame [OF this assms(3)] assms(2) show ?thesis
    by (simp add: reload_step_rsLookup)
qed

text \<open>The loop does not read the catalog, it stops at the first document that fails
  validation, and it runs through when every document passes.\<close>

lemma reload_loop_catalog:
  "reload_loop (env\<lparr>catalog := c\<rparr>) xs s = reload_loop env xs s"
  by (induction xs arbitrary: s)
     (simp_all add: mkShard_def Shard_ctor_def Shard_setAddr_def Let_def split: Status.splits)

lemma reload_loop_stops:
  "\<forall>x\<in>set pre. validate env x = OK \<Longrightarrow> validate env bad = NotOK c \<Longrightarrow>
   reload_loop env (pre @ bad # post) s = (Inl (UserException c), snd (reload_loop env pre s))"
  by (induction pre arbitrary: s)
     (simp_all add: reload_loop_Cons del: reload_loop.simps(2))

lemma reload_loop_passes:
  "\<forall>x\<in>set xs. validate env x = OK \<Longrightarrow> fst (reload_loop env xs s) = Inr ()"
  by (induction xs arbitrary: s)
     (simp_all add: reload_loop_Cons del: reload_loop.simps(2))

lemma reload_loop_valid:
  "\<forall>x\<in>set xs. validate env x = OK \<Longrightarrow>
   reload_loop env xs s = (Inr (), snd (reload_loop env xs s))"
  using reload_loop_passes [of xs env s] by (simp add: prod_eq_iff)

lemma reload_valid:
  assumes "catalog env (catalogCalls s) = (OK, xs)" and "\<forall>x\<in>set xs. validate env x = OK"
  shows "reload env s = (Inr (), snd (reload env s))"
    and "reload_loop env xs (reload_clear (s\<lparr>catalogCalls := Suc (catalogCalls s)\<rparr>)) =
           (Inr (), snd (reload env s))"
  using assms(1) reload_loop_valid [OF assms(2)] by (simp_all add: reload_def Let_def)

lemma reload_invalid:
  assumes "catalog env (catalogCalls s) = (OK, pre @ bad # post)"
      and "\<forall>x\<in>set pre. validate env x = OK" and "validate env bad = NotOK c"
  shows "fst (reload env s) = Inl (UserException c)"
    and "reload_loop env pre (reload_clear (s\<lparr>catalogCalls := Suc (catalogCalls s)\<rparr>)) =
           (Inr (), snd (reload env s))"
  using assms(1) reload_loop_stops [OF assms(2,3)] reload_loop_valid [OF assms(2)]
  by (simp_all add: reload_def Let_def)

subsection \<open>Reachable states keep the invariant\<close>

lemma reachable_wf: "reachable env s \<Longrightarrow> wf_state s"
  by (induction rule: reachable.induct)
     (simp_all add: wf_initial wf_reload wf_set_shard wf_remove_shard)

subsection \<open>\<open>find\<close> and \<open>findWithRetry\<close>\<close>

lemma find_shard_cases:
  "find_shard env ident s =
     (if snd (parse env ident) \<noteq> [] then Inl (UserException 18642)
      else if cs_type (fst (parse env ident)) = SET
           then Inr (map_find (rsLookup s) (getSetName (fst (parse env ident))))
           else Inr (map_find (lookup s) ident))"
  by (simp add: find_shard_def split: prod.splits)

lemma find_shard_plain:
  "parsesPlain env ident \<Longrightarrow> find_shard env ident s = Inr (map_find (lookup s) ident)"
  by (simp add: find_shard_cases parsesPlain_def)

lemma find_shard_set:
  "parsesSet env ident n \<Longrightarrow> find_shard env ident s = Inr (map_find (rsLookup s) n)"
  by (simp add: find_shard_cases parsesSet_def)

text \<open>After a miss and a successful \<open>reload\<close>, the second \<open>find\<close> decides.\<close>

lemma findWithRetry_miss:
  assumes "find_shard env ident s = Inr None" and "reload env s = (Inr (), s1)"
  shows "findWithRetry env ident s =
           (case find_shard env ident s1 of
              Inl e \<Rightarrow> (Inl e, s1)
            | Inr None \<Rightarrow> (Inl (MsgAssertionException 13129), s1)
            | Inr (Some sh) \<Rightarrow> (Inr (Some sh), s1))"
  using assms by (simp add: findWithRetry_def)

subsection \<open>The concrete world\<close>

lemmas demo_defs = demoEnv_def demoState_def specEnv_def noReply_def initial_def
  docA_def docB_def configShard_def reload_def reload_clear_def set_shard_def
  installHost_def mkShard_def Shard_ctor_def Shard_setAddr_def spec_validate_def
  spec_connStrSET_def spec_parse_def Let_def

lemma wf_demoState: "wf_state demoState"
  unfolding demoState_def by (intro wf_reload wf_set_shard wf_initial)

lemma demoState_value:
  "lookup demoState =
     [(''A'', mkShard demoEnv docA), (''B'', mkShard demoEnv docB), (''config'', configShard),
      (''h1:1'', mkShard demoEnv docA), (''h2:1'', mkShard demoEnv docA),
      (''hb:1'', mkShard demoEnv docB), (''rsA/h1:1,h2:1'', mkShard demoEnv docA)]"
  "rsLookup demoState = [(''rsA'', mkShard demoEnv docA)]"
  by (simp_all add: demo_defs)

lemma demoState_value2:
  "demoState =
     \<lparr>lookup =
        [(''A'', mkShard demoEnv docA), (''B'', mkShard demoEnv docB), (''config'', configShard),
         (''h1:1'', mkShard demoEnv docA), (''h2:1'', mkShard demoEnv docA),
         (''hb:1'', mkShard demoEnv docB), (''rsA/h1:1,h2:1'', mkShard demoEnv docA)],
      rsLookup = [(''rsA'', mkShard demoEnv docA)], catalogCalls = 1\<rparr>"
  by (simp add: demo_defs)

lemma demoState_all: "getAllShards demoState [] = [mkShard demoEnv docA, mkShard demoEnv docB]"
  by (simp add: getAllShards_def demoState_value mkShard_fields docA_def docB_def configShard_def)

lemma demoEnv_parse:
  "parsesPlain demoEnv ''A''" "parsesPlain demoEnv ''h1:1''" "parsesPlain demoEnv ''h2:1''"
  "parsesSet demoEnv ''rsA/h1:1,h2:1'' ''rsA''" "parsesPlain demoEnv ''config''"
  by (simp_all add: parsesPlain_def parsesSet_def demoEnv_def specEnv_def spec_parse_def
        spec_connStrSET_def)

lemma demoEnv_keys:
  "primaryKeys demoEnv docA = {''A'', ''rsA/h1:1,h2:1'', ''h1:1'', ''h2:1''}"
  "primaryKeys demoEnv docB = {''B'', ''hb:1''}"
  "rsKeys demoEnv docA = {''rsA''}" "rsKeys demoEnv docB = {}"
  by (auto simp: primaryKeys_def rsKeys_def demo_defs)

lemma demoEnv_docA:
  "getName docA = ''A''" "getHost docA = ''rsA/h1:1,h2:1''"
  "cs_type (s_cs (mkShard demoEnv docA)) = SET"
  "getSetName (s_cs (mkShard demoEnv docA)) = ''rsA''"
  "getServers (s_cs (mkShard demoEnv docA)) = [''h1:1'', ''h2:1'']"
  by (simp_all add: demo_defs)

lemma failEnv_reload:
  "reload failEnv demoState =
     (Inl (UserException 4),
      \<lparr>lookup = [(''B'', mkShard demoEnv docB), (''config'', configShard),
                 (''hb:1'', mkShard demoEnv docB)],
       rsLookup = [], catalogCalls = 2\<rparr>)"
  by (simp add: demoState_value2 failEnv_def docBad_def demo_defs)

lemma growState_value:
  "growState =
     \<lparr>lookup = [(''B'', mkShard growEnv docB), (''hb:1'', mkShard growEnv docB)],
      rsLookup = [], catalogCalls = 1\<rparr>"
  by (simp add: growState_def growEnv_def demo_defs)

lemma growEnv_parse:
  "parsesPlain growEnv ''A''" "parsesPlain growEnv ''B''" "parsesPlain growEnv ''h1:1''"
  "parsesPlain growEnv ''Y''" "parsesSet growEnv ''rsA/h1:1,h2:1'' ''rsA''"
  by (simp_all add: parsesPlain_def parsesSet_def growEnv_def specEnv_def spec_parse_def
        spec_connStrSET_def)

lemma growEnv_keys:
  "primaryKeys growEnv docA = {''A'', ''rsA/h1:1,h2:1'', ''h1:1'', ''h2:1''}"
  "primaryKeys growEnv docB = {''B'', ''hb:1''}"
  "rsKeys growEnv docA = {''rsA''}" "rsKeys growEnv docB = {}"
  by (auto simp: primaryKeys_def rsKeys_def growEnv_def demo_defs)

lemma growEnv_catalog:
  "catalog growEnv (catalogCalls growState) = (OK, [docB] @ docA # [])"
  "validate growEnv docA = OK" "validate growEnv docB = OK"
  by (simp_all add: growState_value growEnv_def specEnv_def spec_validate_def docA_def docB_def)

lemma growState_find:
  "find_shard growEnv ''B'' growState = Inr (Some (mkShard growEnv docB))"
  "find_shard growEnv ''A'' growState = Inr None"
  "find_shard growEnv ''h1:1'' growState = Inr None"
  "find_shard growEnv ''Y'' growState = Inr None"
  "find_shard growEnv ''rsA/h1:1,h2:1'' growState = Inr None"
  by (simp_all add: find_shard_plain growEnv_parse find_shard_set [OF growEnv_parse(5)]
        growState_value)

lemma removed_value:
  "remove_shard ''A'' demoState =
     \<lparr>lookup = [(''B'', mkShard demoEnv docB), (''config'', configShard),
                (''hb:1'', mkShard demoEnv docB)],
      rsLookup = [], catalogCalls = 1\<rparr>"
  by (simp add: remove_shard_def demoState_value2 mkShard_fields docA_def docB_def configShard_def)

lemma failEnv_keys:
  "primaryKeys failEnv docB = {''B'', ''hb:1''}" "rsKeys failEnv docB = {}"
  by (auto simp: primaryKeys_def rsKeys_def failEnv_def demo_defs)

lemma pickEnv_status:
  "getStatus (pickEnv szB) (mkShard demoEnv docA) =
     Inr \<lparr>shard = mkShard demoEnv docA, dataSizeBytes = 100 * 1024 * 1024, mongoVersion = ''3.1.0''\<rparr>"
  "getStatus (pickEnv szB) (mkShard demoEnv docB) =
     Inr \<lparr>shard = mkShard demoEnv docB, dataSizeBytes = szB, mongoVersion = ''3.1.0''\<rparr>"
  by (simp_all add: getStatus_def getShardDataSizeBytes_def getShardMongoVersion_def pickEnv_def
        sizedReply_def mkShard_fields docA_def docB_def)

lemma pickEnv_less: "statusLess (pickEnv szB) a b = (dataSizeBytes a < dataSizeBytes b)"
  by (simp add: pickEnv_def demoEnv_def specEnv_def spec_statusLess_def)

lemma dupEnv_reload:
  "reload dupEnv initial =
     (Inr (),
      \<lparr>lookup = [(''B'', mkShard dupEnv docB), (''B2'', mkShard dupEnv docB2),
                 (''hb:1'', mkShard dupEnv docB2)],
       rsLookup = [], catalogCalls = 1\<rparr>)"
  by (simp add: dupEnv_def docB2_def demo_defs)

lemma config_set_value:
  "set_shard ''config'' configShard True True initial =
     \<lparr>lookup = [(''cfg1:27019'', configShard), (''config'', configShard)],
      rsLookup = [], catalogCalls = 0\<rparr>"
  by (simp add: set_shard_def installHost_def initial_def configShard_def Let_def)

lemma config_reload_value:
  "reload demoEnv (set_shard ''config'' configShard True True initial) =
     (Inr (),
      \<lparr>lookup =
        [(''A'', mkShard demoEnv docA), (''B'', mkShard demoEnv docB), (''config'', configShard),
         (''h1:1'', mkShard demoEnv docA), (''h2:1'', mkShard demoEnv docA),
         (''hb:1'', mkShard demoEnv docB), (''rsA/h1:1,h2:1'', mkShard demoEnv docA)],
      rsLookup = [(''rsA'', mkShard demoEnv docA)], catalogCalls = 1\<rparr>)"
  by (simp add: config_set_value) (simp add: demo_defs)

lemma host_reload_value:
  "reload hostEnv (set_shard ''config'' configShard True True initial) =
     (Inr (),
      \<lparr>lookup = [(''config'', mkShard hostEnv docH), (''s1'', mkShard hostEnv docH)],
       rsLookup = [], catalogCalls = 1\<rparr>)"
  by (simp add: config_set_value) (simp add: hostEnv_def docH_def demo_defs)

section \<open>The claims\<close>

subsection \<open>C1: a reload that aborts\<close>

text \<open>
  C1, as amended. When the catalog call fails, \<open>reload\<close> raises assertion 13632 and both
  tables are exactly as before. When a document of the list fails validation, \<open>reload\<close>
  raises the status of that document as a user assertion, and by then the tables have been
  rebuilt from the documents before the first invalid one: a key that none of them is
  installed under is absent from the primary table, except \<open>"config"\<close>, which keeps the
  record it had, and is absent from the replica-set table; a key that one of them is
  installed under holds the record of the last of them that is. Both tables still satisfy
  the invariant of \<open>std::map\<close>, so this fixes them entry by entry.
\<close>

theorem reload_abort:
  "(fst (catalog env (catalogCalls s)) \<noteq> OK \<longrightarrow>
      fst (reload env s) = Inl (MsgAssertionException 13632) \<and>
      lookup (snd (reload env s)) = lookup s \<and>
      rsLookup (snd (reload env s)) = rsLookup s) \<and>
   (catalog env (catalogCalls s) = (OK, pre @ bad # post) \<and>
    (\<forall>x\<in>set pre. validate env x = OK) \<and> validate env bad = NotOK c \<longrightarrow>
      fst (reload env s) = Inl (UserException c) \<and>
      wf_state (snd (reload env s)) \<and>
      (\<forall>k. (\<forall>x\<in>set pre. k \<notin> primaryKeys env x) \<longrightarrow>
           map_find (lookup (snd (reload env s))) k =
             (if k = ''config'' then map_find (lookup s) ''config'' else None)) \<and>
      (\<forall>k. (\<forall>x\<in>set pre. k \<notin> rsKeys env x) \<longrightarrow>
           map_find (rsLookup (snd (reload env s))) k = None) \<and>
      (\<forall>p1 R p2 k. pre = p1 @ R # p2 \<and> k \<in> primaryKeys env R \<and>
           (\<forall>x\<in>set p2. k \<notin> primaryKeys env x) \<longrightarrow>
           map_find (lookup (snd (reload env s))) k = Some (mkShard env R)) \<and>
      (\<forall>p1 R p2 k. pre = p1 @ R # p2 \<and> k \<in> rsKeys env R \<and>
           (\<forall>x\<in>set p2. k \<notin> rsKeys env x) \<longrightarrow>
           map_find (rsLookup (snd (reload env s))) k = Some (mkShard env R)))"
proof -
  let ?s' = "snd (reload env s)"
  let ?s0 = "reload_clear (s\<lparr>catalogCalls := Suc (catalogCalls s)\<rparr>)"
  have a: "fst (catalog env (catalogCalls s)) \<noteq> OK \<longrightarrow>
      fst (reload env s) = Inl (MsgAssertionException 13632) \<and>
      lookup ?s' = lookup s \<and> rsLookup ?s' = rsLookup s"
    by (simp add: reload_def Let_def split: prod.splits)
  have b: "fst (reload env s) = Inl (UserException c) \<and>
      wf_state ?s' \<and>
      (\<forall>k. (\<forall>x\<in>set pre. k \<notin> primaryKeys env x) \<longrightarrow>
           map_find (lookup ?s') k =
             (if k = ''config'' then map_find (lookup s) ''config'' else None)) \<and>
      (\<forall>k. (\<forall>x\<in>set pre. k \<notin> rsKeys env x) \<longrightarrow> map_find (rsLookup ?s') k = None) \<and>
      (\<forall>p1 R p2 k. pre = p1 @ R # p2 \<and> k \<in> primaryKeys env R \<and>
           (\<forall>x\<in>set p2. k \<notin> primaryKeys env x) \<longrightarrow>
           map_find (lookup ?s') k = Some (mkShard env R)) \<and>
      (\<forall>p1 R p2 k. pre = p1 @ R # p2 \<and> k \<in> rsKeys env R \<and>
           (\<forall>x\<in>set p2. k \<notin> rsKeys env x) \<longrightarrow>
           map_find (rsLookup ?s') k = Some (mkShard env R))"
    if cat: "catalog env (catalogCalls s) = (OK, pre @ bad # post)"
      and pre: "\<forall>x\<in>set pre. validate env x = OK" and bad: "validate env bad = NotOK c"
  proof -
    note inv = reload_invalid [OF cat pre bad]
    have loop: "reload_loop env pre ?s0 = (Inr (), ?s')" by (rule inv(2))
    have 0: "wf_state ?s'"
      using wf_reload_loop [OF wf_reload_clear, of env pre "s\<lparr>catalogCalls := Suc (catalogCalls s)\<rparr>"]
      by (simp add: loop)
    have 1: "\<forall>k. (\<forall>x\<in>set pre. k \<notin> primaryKeys env x) \<longrightarrow>
           map_find (lookup ?s') k =
             (if k = ''config'' then map_find (lookup s) ''config'' else None)"
      using reload_loop_frame [OF loop] by (simp add: reload_clear_lookup)
    have 2: "\<forall>k. (\<forall>x\<in>set pre. k \<notin> rsKeys env x) \<longrightarrow> map_find (rsLookup ?s') k = None"
      using reload_loop_rs_frame [OF loop] by (simp add: reload_clear_rsLookup)
    have 3: "\<forall>p1 R p2 k. pre = p1 @ R # p2 \<and> k \<in> primaryKeys env R \<and>
           (\<forall>x\<in>set p2. k \<notin> primaryKeys env x) \<longrightarrow>
           map_find (lookup ?s') k = Some (mkShard env R)"
      using loop by (auto intro: reload_loop_installed)
    have 4: "\<forall>p1 R p2 k. pre = p1 @ R # p2 \<and> k \<in> rsKeys env R \<and>
           (\<forall>x\<in>set p2. k \<notin> rsKeys env x) \<longrightarrow>
           map_find (rsLookup ?s') k = Some (mkShard env R)"
      using loop by (auto intro: reload_loop_rs_installed)
    from inv(1) 0 1 2 3 4 show ?thesis by simp
  qed
  from a b show ?thesis by blast
qed

theorem reload_abort_witness:
  "fst (catalog downEnv (catalogCalls demoState)) \<noteq> OK \<and>
   fst (reload downEnv demoState) = Inl (MsgAssertionException 13632) \<and>
   lookup (snd (reload downEnv demoState)) = lookup demoState \<and>
   rsLookup (snd (reload downEnv demoState)) = rsLookup demoState \<and>
   catalog failEnv (catalogCalls demoState) = (OK, [docB] @ docBad # [docA]) \<and>
   validate failEnv docB = OK \<and> validate failEnv docBad = NotOK 4 \<and>
   fst (reload failEnv demoState) = Inl (UserException 4) \<and>
   map_find (lookup demoState) ''h1:1'' = Some (mkShard demoEnv docA) \<and>
   map_find (lookup (snd (reload failEnv demoState))) ''h1:1'' = None \<and>
   map_find (lookup (snd (reload failEnv demoState))) ''config'' = Some configShard \<and>
   map_find (rsLookup (snd (reload failEnv demoState))) ''rsA'' = None \<and>
   map_find (lookup (snd (reload failEnv demoState))) ''hb:1'' = Some (mkShard failEnv docB)"
proof -
  have c: "catalogCalls demoState = 1" by (simp add: demoState_value2)
  have d: "fst (catalog downEnv (catalogCalls demoState)) \<noteq> OK"
    by (simp add: c downEnv_def specEnv_def)
  have f: "catalog failEnv (catalogCalls demoState) = (OK, [docB] @ docBad # [docA])"
    by (simp add: c failEnv_def specEnv_def)
  have v: "validate failEnv docB = OK" "validate failEnv docBad = NotOK 4"
    by (simp_all add: failEnv_def specEnv_def spec_validate_def docB_def docBad_def)
  have o: "map_find (lookup demoState) ''h1:1'' = Some (mkShard demoEnv docA)"
          "map_find (lookup demoState) ''config'' = Some configShard"
    by (simp_all add: demoState_value)
  note t = reload_abort [of failEnv demoState "[docB]" docBad "[docA]" 4]
  have pv: "\<forall>x\<in>set [docB]. validate failEnv x = OK" using v(1) by simp
  note big = t [THEN conjunct2, THEN mp, OF conjI [OF f conjI [OF pv v(2)]]]
  note fixed = big [THEN conjunct2, THEN conjunct2, THEN conjunct1]
    big [THEN conjunct2, THEN conjunct2, THEN conjunct2, THEN conjunct1]
    big [THEN conjunct2, THEN conjunct2, THEN conjunct2, THEN conjunct2, THEN conjunct1]
  from fixed(1) [rule_format, of "''h1:1''"] fixed(1) [rule_format, of "''config''"] o
  have l: "map_find (lookup (snd (reload failEnv demoState))) ''h1:1'' = None"
          "map_find (lookup (snd (reload failEnv demoState))) ''config'' = Some configShard"
    by (simp_all add: failEnv_keys)
  from fixed(2) [rule_format, of "''rsA''"]
  have r: "map_find (rsLookup (snd (reload failEnv demoState))) ''rsA'' = None"
    by (simp add: failEnv_keys)
  from fixed(3) [rule_format, of "[]" docB "[]" "''hb:1''"]
  have h: "map_find (lookup (snd (reload failEnv demoState))) ''hb:1'' = Some (mkShard failEnv docB)"
    by (simp add: failEnv_keys)
  from reload_abort [of downEnv demoState "[]" docBad "[]" 0] big d f v o l r h
  show ?thesis by simp
qed

text \<open>
  The claim as stated fails: the catalog lists \<open>docB\<close>, a document without a name and
  \<open>docA\<close>; \<open>reload\<close> raises at the second document, and the shard \<open>A\<close> that both tables
  held before the call is gone from them.
\<close>

theorem reload_not_atomic_counterexample:
  "catalog failEnv (catalogCalls demoState) = (OK, [docB, docBad, docA]) \<and>
   validate failEnv docBad \<noteq> OK \<and>
   fst (reload failEnv demoState) = Inl (UserException 4) \<and>
   map_find (lookup demoState) ''A'' = Some (mkShard demoEnv docA) \<and>
   map_find (lookup (snd (reload failEnv demoState))) ''A'' = None \<and>
   map_find (rsLookup demoState) ''rsA'' = Some (mkShard demoEnv docA) \<and>
   map_find (rsLookup (snd (reload failEnv demoState))) ''rsA'' = None"
  by (simp add: failEnv_reload) (simp add: demoState_value2 failEnv_def specEnv_def spec_validate_def docBad_def)

subsection \<open>C2: reachability after a reload\<close>

text \<open>
  C2, as amended. Let a successful \<open>reload\<close> install the list \<open>pre @ R # post\<close>, and let
  no document after \<open>R\<close> be installed under a key of \<open>R\<close> (its name, its address
  string, its member hosts; its set name in the replica-set table). Then \<open>find(R.name)\<close>
  returns the record built from \<open>R\<close> when the name parses as a plain (non-set)
  identifier; \<open>find(R.address)\<close> returns it when the address parses as a plain identifier,
  or as a set connection string with the non-empty set name of \<open>R\<close>; if the descriptor
  of \<open>R\<close> is a replica set, \<open>find(member)\<close> returns it for every member host that parses
  as a plain identifier, and \<open>lookupRSName(R.setName)\<close> returns it when the set name is not
  empty.
\<close>

theorem reload_reachability:
  assumes cat: "catalog env (catalogCalls s) = (OK, pre @ R # post)"
      and ok: "reload env s = (Inr (), s')"
      and later: "\<forall>x\<in>set post. primaryKeys env x \<inter> primaryKeys env R = {}"
      and later_rs: "\<forall>x\<in>set post. rsKeys env x \<inter> rsKeys env R = {}"
  shows "(parsesPlain env (getName R) \<longrightarrow>
            find_shard env (getName R) s' = Inr (Some (mkShard env R))) \<and>
         (parsesPlain env (getHost R) \<or>
          parsesSet env (getHost R) (getSetName (s_cs (mkShard env R))) \<and> rsKeys env R \<noteq> {} \<longrightarrow>
            find_shard env (getHost R) s' = Inr (Some (mkShard env R))) \<and>
         (cs_type (s_cs (mkShard env R)) = SET \<longrightarrow>
            (\<forall>h\<in>set (getServers (s_cs (mkShard env R))). parsesPlain env h \<longrightarrow>
               find_shard env h s' = Inr (Some (mkShard env R)))) \<and>
         (cs_type (s_cs (mkShard env R)) = SET \<and> getSetName (s_cs (mkShard env R)) \<noteq> [] \<longrightarrow>
            fst (lookupRSName (getSetName (s_cs (mkShard env R))) s') = mkShard env R)"
proof -
  let ?sh = "mkShard env R"
  let ?n = "getSetName (s_cs ?sh)"
  from reload_success [OF ok] cat
  have loop: "reload_loop env (pre @ R # post)
                (reload_clear (s\<lparr>catalogCalls := Suc (catalogCalls s)\<rparr>)) = (Inr (), s')"
    by simp
  have prim: "map_find (lookup s') k = Some ?sh" if "k \<in> primaryKeys env R" for k
  proof -
    from later that have "\<forall>x\<in>set post. k \<notin> primaryKeys env x" by blast
    from reload_loop_installed [OF loop that this] show ?thesis .
  qed
  have rs: "map_find (rsLookup s') k = Some ?sh" if "k \<in> rsKeys env R" for k
  proof -
    from later_rs that have "\<forall>x\<in>set post. k \<notin> rsKeys env x" by blast
    from reload_loop_rs_installed [OF loop that this] show ?thesis .
  qed
  have name: "find_shard env (getName R) s' = Inr (Some ?sh)" if "parsesPlain env (getName R)"
    using that prim [of "getName R"] by (simp add: find_shard_plain primaryKeys_def)
  have addr: "find_shard env (getHost R) s' = Inr (Some ?sh)"
    if "parsesPlain env (getHost R) \<or> parsesSet env (getHost R) ?n \<and> rsKeys env R \<noteq> {}"
    using that
  proof
    assume "parsesPlain env (getHost R)"
    then show ?thesis using prim [of "getHost R"] by (simp add: find_shard_plain primaryKeys_def)
  next
    assume a: "parsesSet env (getHost R) ?n \<and> rsKeys env R \<noteq> {}"
    then have "?n \<in> rsKeys env R" by (simp add: rsKeys_def split: if_splits)
    from rs [OF this] find_shard_set [OF conjunct1 [OF a], of s'] show ?thesis by simp
  qed
  have members: "\<forall>h\<in>set (getServers (s_cs ?sh)). parsesPlain env h \<longrightarrow>
                   find_shard env h s' = Inr (Some ?sh)"
    if "cs_type (s_cs ?sh) = SET"
  proof (intro ballI impI)
    fix h assume h: "h \<in> set (getServers (s_cs ?sh))" and p: "parsesPlain env h"
    from h that have "h \<in> primaryKeys env R" by (simp add: primaryKeys_def)
    from prim [OF this] p show "find_shard env h s' = Inr (Some ?sh)"
      by (simp add: find_shard_plain)
  qed
  have rsname: "fst (lookupRSName ?n s') = ?sh" if "cs_type (s_cs ?sh) = SET \<and> ?n \<noteq> []"
  proof -
    from that have "?n \<in> rsKeys env R" by (simp add: rsKeys_def)
    from rs [OF this] show ?thesis by (simp add: lookupRSName_def)
  qed
  from name addr members rsname show ?thesis by blast
qed

theorem reload_reachability_witness:
  "catalog demoEnv (catalogCalls initial) = (OK, [] @ docA # [docB]) \<and>
   fst (reload demoEnv initial) = Inr () \<and>
   primaryKeys demoEnv docB \<inter> primaryKeys demoEnv docA = {} \<and>
   rsKeys demoEnv docB \<inter> rsKeys demoEnv docA = {} \<and>
   find_shard demoEnv ''A'' (snd (reload demoEnv initial)) = Inr (Some (mkShard demoEnv docA)) \<and>
   find_shard demoEnv ''rsA/h1:1,h2:1'' (snd (reload demoEnv initial)) =
     Inr (Some (mkShard demoEnv docA)) \<and>
   find_shard demoEnv ''h1:1'' (snd (reload demoEnv initial)) = Inr (Some (mkShard demoEnv docA)) \<and>
   find_shard demoEnv ''h2:1'' (snd (reload demoEnv initial)) = Inr (Some (mkShard demoEnv docA)) \<and>
   fst (lookupRSName ''rsA'' (snd (reload demoEnv initial))) = mkShard demoEnv docA"
proof -
  let ?s' = "snd (reload demoEnv initial)"
  have cat: "catalog demoEnv (catalogCalls initial) = (OK, [] @ docA # [docB])"
    by (simp add: demoEnv_def specEnv_def)
  have okf: "fst (reload demoEnv initial) = Inr ()"
    by (simp add: demo_defs)
  then have ok: "reload demoEnv initial = (Inr (), ?s')"
    by (simp add: prod_eq_iff)
  have d1: "\<forall>x\<in>set [docB]. primaryKeys demoEnv x \<inter> primaryKeys demoEnv docA = {}"
    by (simp add: demoEnv_keys)
  have d2: "\<forall>x\<in>set [docB]. rsKeys demoEnv x \<inter> rsKeys demoEnv docA = {}"
    by (simp add: demoEnv_keys)
  from reload_reachability [OF cat ok d1 d2] cat okf demoEnv_parse
  show ?thesis by (simp add: demoEnv_docA demoEnv_keys)
qed

text \<open>
  The claim as stated fails: the catalog lists two valid shards \<open>B\<close> and \<open>B2\<close> on the
  same host. The reload succeeds, and \<open>find\<close> of the address of \<open>B\<close> returns \<open>B2\<close>,
  the record installed last under that key.
\<close>

theorem reload_reachability_counterexample:
  "catalog dupEnv (catalogCalls initial) = (OK, [docB, docB2]) \<and>
   validate dupEnv docB = OK \<and> validate dupEnv docB2 = OK \<and>
   fst (reload dupEnv initial) = Inr () \<and>
   find_shard dupEnv (getHost docB) (snd (reload dupEnv initial)) =
     Inr (Some (mkShard dupEnv docB2)) \<and>
   mkShard dupEnv docB2 \<noteq> mkShard dupEnv docB"
proof -
  have p: "parse dupEnv ''hb:1'' = (\<lparr>cs_type = MASTER, getSetName = [], getServers = [''hb:1'']\<rparr>, [])"
    by (simp add: dupEnv_def specEnv_def spec_parse_def spec_connStrSET_def)
  have v: "validate dupEnv docB = OK" "validate dupEnv docB2 = OK"
    by (simp_all add: dupEnv_def specEnv_def spec_validate_def docB_def docB2_def)
  have c: "catalog dupEnv (catalogCalls initial) = (OK, [docB, docB2])"
    by (simp add: dupEnv_def specEnv_def)
  have f: "find_shard dupEnv (getHost docB) (snd (reload dupEnv initial)) =
     Inr (Some (mkShard dupEnv docB2))"
    by (simp add: dupEnv_reload find_shard_def docB_def p)
  have n: "mkShard dupEnv docB2 \<noteq> mkShard dupEnv docB"
    by (simp add: mkShard_def Shard_ctor_def Shard_setAddr_def docB_def docB2_def Let_def)
  from c v f n show ?thesis by (simp add: dupEnv_reload)
qed

subsection \<open>C3: the config entry across a reload\<close>

text \<open>
  C3, as amended. After \<open>set("config", C)\<close> and a successful \<open>reload\<close> whose list holds no
  document installed under the key \<open>"config"\<close> (none named \<open>config\<close>, and none whose host
  string or member host is \<open>config\<close>), \<open>find("config")\<close> still returns \<open>C\<close>, provided
  \<open>"config"\<close> parses as a plain identifier. Nothing else survives the clearing: every other
  key that the list does not install is absent from the primary table, and every set name
  that the list does not install is absent from the replica-set table.
\<close>

theorem config_survives_reload:
  assumes cat: "catalog env (catalogCalls s) = (OK, shards)"
      and ok: "reload env (set_shard ''config'' C True a s) = (Inr (), s')"
      and nokey: "\<forall>x\<in>set shards. ''config'' \<notin> primaryKeys env x"
      and plain: "parsesPlain env ''config''"
  shows "find_shard env ''config'' s' = Inr (Some C) \<and>
         (\<forall>k. k \<noteq> ''config'' \<and> (\<forall>x\<in>set shards. k \<notin> primaryKeys env x) \<longrightarrow>
              map_find (lookup s') k = None) \<and>
         (\<forall>k. (\<forall>x\<in>set shards. k \<notin> rsKeys env x) \<longrightarrow> map_find (rsLookup s') k = None)"
proof -
  let ?s1 = "set_shard ''config'' C True a s"
  let ?s0 = "reload_clear (?s1\<lparr>catalogCalls := Suc (catalogCalls ?s1)\<rparr>)"
  from reload_success [OF ok] cat
  have loop: "reload_loop env shards ?s0 = (Inr (), s')"
    by (simp add: set_shard_calls)
  have kept: "map_find (lookup ?s0) k = (if k = ''config'' then Some C else None)" for k
    using set_shard_lookup_name [of "''config''" C a s] by (simp add: reload_clear_lookup)
  have "map_find (lookup s') ''config'' = Some C"
    using reload_loop_frame [OF loop nokey] kept by simp
  then have a: "find_shard env ''config'' s' = Inr (Some C)"
    using plain by (simp add: find_shard_plain)
  have b: "\<forall>k. k \<noteq> ''config'' \<and> (\<forall>x\<in>set shards. k \<notin> primaryKeys env x) \<longrightarrow>
              map_find (lookup s') k = None"
    using reload_loop_frame [OF loop] kept by simp
  have c: "\<forall>k. (\<forall>x\<in>set shards. k \<notin> rsKeys env x) \<longrightarrow> map_find (rsLookup s') k = None"
    using reload_loop_rs_frame [OF loop] by (simp add: reload_clear_rsLookup)
  from a b c show ?thesis by blast
qed

theorem config_survives_reload_witness:
  "catalog demoEnv (catalogCalls initial) = (OK, [docA, docB]) \<and>
   fst (reload demoEnv (set_shard ''config'' configShard True True initial)) = Inr () \<and>
   ''config'' \<notin> primaryKeys demoEnv docA \<and> ''config'' \<notin> primaryKeys demoEnv docB \<and>
   parsesPlain demoEnv ''config'' \<and>
   find_shard demoEnv ''config''
     (snd (reload demoEnv (set_shard ''config'' configShard True True initial))) =
     Inr (Some configShard) \<and>
   map_find (lookup (set_shard ''config'' configShard True True initial)) ''cfg1:27019'' =
     Some configShard \<and>
   map_find
     (lookup (snd (reload demoEnv (set_shard ''config'' configShard True True initial))))
     ''cfg1:27019'' = None"
proof -
  let ?s1 = "set_shard ''config'' configShard True True initial"
  let ?s' = "snd (reload demoEnv ?s1)"
  have cat: "catalog demoEnv (catalogCalls initial) = (OK, [docA, docB])"
    by (simp add: demoEnv_def specEnv_def)
  have okf: "fst (reload demoEnv ?s1) = Inr ()"
    by (simp add: config_reload_value)
  then have ok: "reload demoEnv ?s1 = (Inr (), ?s')"
    by (simp add: prod_eq_iff)
  have nk: "\<forall>x\<in>set [docA, docB]. ''config'' \<notin> primaryKeys demoEnv x"
    by (simp add: demoEnv_keys)
  have al: "map_find (lookup ?s1) ''cfg1:27019'' = Some configShard"
    by (simp add: config_set_value)
  from config_survives_reload [OF cat ok nk demoEnv_parse(5)] cat okf nk demoEnv_parse(5) al
  show ?thesis by (simp add: demoEnv_keys)
qed

text \<open>
  The claim as stated fails: the catalog lists one valid shard, named \<open>s1\<close>, whose host
  string is \<open>config\<close>. The list holds no document named \<open>config\<close>, the reload succeeds,
  and \<open>_lookup[host]\<close> has overwritten the entry: \<open>find("config")\<close> returns the record of
  \<open>s1\<close>.
\<close>

theorem config_survives_reload_counterexample:
  "catalog hostEnv (catalogCalls (set_shard ''config'' configShard True True initial)) =
     (OK, [docH]) \<and>
   getName docH \<noteq> ''config'' \<and> validate hostEnv docH = OK \<and>
   fst (reload hostEnv (set_shard ''config'' configShard True True initial)) = Inr () \<and>
   find_shard hostEnv ''config'' (set_shard ''config'' configShard True True initial) =
     Inr (Some configShard) \<and>
   find_shard hostEnv ''config''
     (snd (reload hostEnv (set_shard ''config'' configShard True True initial))) =
     Inr (Some (mkShard hostEnv docH)) \<and>
   mkShard hostEnv docH \<noteq> configShard"
proof -
  have p: "parse hostEnv ''config'' =
             (\<lparr>cs_type = MASTER, getSetName = [], getServers = [''config'']\<rparr>, [])"
    by (simp add: hostEnv_def specEnv_def spec_parse_def spec_connStrSET_def)
  have c: "catalog hostEnv (catalogCalls (set_shard ''config'' configShard True True initial)) =
             (OK, [docH])"
    by (simp add: hostEnv_def specEnv_def)
  have v: "getName docH \<noteq> ''config''" "validate hostEnv docH = OK"
    by (simp_all add: hostEnv_def specEnv_def spec_validate_def docH_def)
  have f0: "find_shard hostEnv ''config'' (set_shard ''config'' configShard True True initial) =
              Inr (Some configShard)"
    by (simp add: find_shard_def p config_set_value)
  have f1: "find_shard hostEnv ''config''
              (snd (reload hostEnv (set_shard ''config'' configShard True True initial))) =
              Inr (Some (mkShard hostEnv docH))"
    by (simp add: find_shard_def p host_reload_value)
  have n: "mkShard hostEnv docH \<noteq> configShard"
    by (simp add: mkShard_def Shard_ctor_def Shard_setAddr_def docH_def configShard_def Let_def)
  from c v f0 f1 n show ?thesis by (simp add: host_reload_value)
qed

subsection \<open>C4: \<open>findWithRetry\<close>\<close>

text \<open>
  C4, as amended. \<open>findWithRetry(ident)\<close> calls \<open>find\<close> first. On a hit it returns that
  record and the state is untouched, so no reload ran. On a miss it runs \<open>reload\<close> once
  (the catalog is called exactly once more); an exception of that \<open>reload\<close> leaves
  \<open>findWithRetry\<close> as it is. When the catalog answers and every document of its list is
  valid: an identifier that missed before, and under which the list installs a document
  \<open>R\<close> that no later document is installed under (as name, address string or member host
  for an identifier that parses as plain; as set name for one that parses as a set
  connection string), yields the record of \<open>R\<close>; an identifier that missed before and
  under which the list installs nothing raises assertion 13129. In general a second
  \<open>find\<close> that hits is returned and one that misses raises 13129. A null pointer is never
  returned.
\<close>

theorem findWithRetry_semantics:
  "(find_shard env ident s = Inr (Some sh) \<longrightarrow>
      findWithRetry env ident s = (Inr (Some sh), s)) \<and>
   (find_shard env ident s = Inr None \<longrightarrow>
      snd (findWithRetry env ident s) = snd (reload env s) \<and>
      catalogCalls (snd (findWithRetry env ident s)) = Suc (catalogCalls s)) \<and>
   (find_shard env ident s = Inr None \<and> fst (reload env s) = Inl e \<longrightarrow>
      fst (findWithRetry env ident s) = Inl e) \<and>
   (find_shard env ident s = Inr None \<and> reload env s = (Inr (), s1) \<and>
    find_shard env ident s1 = Inr (Some sh) \<longrightarrow>
      findWithRetry env ident s = (Inr (Some sh), s1)) \<and>
   (find_shard env ident s = Inr None \<and> reload env s = (Inr (), s1) \<and>
    find_shard env ident s1 = Inr None \<longrightarrow>
      findWithRetry env ident s = (Inl (MsgAssertionException 13129), s1)) \<and>
   (find_shard env ident s = Inr None \<and>
    catalog env (catalogCalls s) = (OK, pre @ R # post) \<and>
    (\<forall>x\<in>set (pre @ R # post). validate env x = OK) \<and>
    (parsesPlain env ident \<and> ident \<in> primaryKeys env R \<and>
       (\<forall>x\<in>set post. ident \<notin> primaryKeys env x) \<or>
     parsesSet env ident n \<and> n \<in> rsKeys env R \<and> (\<forall>x\<in>set post. n \<notin> rsKeys env x)) \<longrightarrow>
      fst (findWithRetry env ident s) = Inr (Some (mkShard env R))) \<and>
   (find_shard env ident s = Inr None \<and>
    catalog env (catalogCalls s) = (OK, shards) \<and>
    (\<forall>x\<in>set shards. validate env x = OK) \<and>
    (parsesPlain env ident \<and> (\<forall>x\<in>set shards. ident \<notin> primaryKeys env x) \<or>
     parsesSet env ident n \<and> (\<forall>x\<in>set shards. n \<notin> rsKeys env x)) \<longrightarrow>
      fst (findWithRetry env ident s) = Inl (MsgAssertionException 13129)) \<and>
   fst (findWithRetry env ident s) \<noteq> Inr None"
proof -
  let ?s' = "snd (reload env s)"
  let ?s0 = "reload_clear (s\<lparr>catalogCalls := Suc (catalogCalls s)\<rparr>)"
  have hit: "find_shard env ident s = Inr (Some sh) \<longrightarrow>
      findWithRetry env ident s = (Inr (Some sh), s)"
    by (simp add: findWithRetry_def)
  have once: "find_shard env ident s = Inr None \<longrightarrow>
      snd (findWithRetry env ident s) = ?s' \<and>
      catalogCalls (snd (findWithRetry env ident s)) = Suc (catalogCalls s)"
  proof
    assume m: "find_shard env ident s = Inr None"
    then have "snd (findWithRetry env ident s) = ?s'"
      by (simp add: findWithRetry_def split: prod.splits sum.splits option.splits)
    then show "snd (findWithRetry env ident s) = ?s' \<and>
      catalogCalls (snd (findWithRetry env ident s)) = Suc (catalogCalls s)"
      by (simp add: reload_calls)
  qed
  have fails: "find_shard env ident s = Inr None \<and> fst (reload env s) = Inl e \<longrightarrow>
      fst (findWithRetry env ident s) = Inl e"
    by (auto simp: findWithRetry_def split: prod.splits sum.splits option.splits)
  have found: "find_shard env ident s = Inr None \<and> reload env s = (Inr (), s1) \<and>
    find_shard env ident s1 = Inr (Some sh) \<longrightarrow>
      findWithRetry env ident s = (Inr (Some sh), s1)"
    by (simp add: findWithRetry_def)
  have absent: "find_shard env ident s = Inr None \<and> reload env s = (Inr (), s1) \<and>
    find_shard env ident s1 = Inr None \<longrightarrow>
      findWithRetry env ident s = (Inl (MsgAssertionException 13129), s1)"
    by (simp add: findWithRetry_def)
  have listed: "fst (findWithRetry env ident s) = Inr (Some (mkShard env R))"
    if m: "find_shard env ident s = Inr None"
      and cat: "catalog env (catalogCalls s) = (OK, pre @ R # post)"
      and val: "\<forall>x\<in>set (pre @ R # post). validate env x = OK"
      and key: "parsesPlain env ident \<and> ident \<in> primaryKeys env R \<and>
                  (\<forall>x\<in>set post. ident \<notin> primaryKeys env x) \<or>
                parsesSet env ident n \<and> n \<in> rsKeys env R \<and> (\<forall>x\<in>set post. n \<notin> rsKeys env x)"
  proof -
    note ok = reload_valid [OF cat val]
    from key have "find_shard env ident ?s' = Inr (Some (mkShard env R))"
    proof
      assume a: "parsesPlain env ident \<and> ident \<in> primaryKeys env R \<and>
                  (\<forall>x\<in>set post. ident \<notin> primaryKeys env x)"
      then have "map_find (lookup ?s') ident = Some (mkShard env R)"
        using reload_loop_installed [OF ok(2)] by blast
      with a show ?thesis by (simp add: find_shard_plain)
    next
      assume a: "parsesSet env ident n \<and> n \<in> rsKeys env R \<and> (\<forall>x\<in>set post. n \<notin> rsKeys env x)"
      then have "map_find (rsLookup ?s') n = Some (mkShard env R)"
        using reload_loop_rs_installed [OF ok(2)] by blast
      with a find_shard_set [of env ident n ?s'] show ?thesis by simp
    qed
    with findWithRetry_miss [OF m ok(1)] show ?thesis by simp
  qed
  have unlisted: "fst (findWithRetry env ident s) = Inl (MsgAssertionException 13129)"
    if m: "find_shard env ident s = Inr None"
      and cat: "catalog env (catalogCalls s) = (OK, shards)"
      and val: "\<forall>x\<in>set shards. validate env x = OK"
      and key: "parsesPlain env ident \<and> (\<forall>x\<in>set shards. ident \<notin> primaryKeys env x) \<or>
                parsesSet env ident n \<and> (\<forall>x\<in>set shards. n \<notin> rsKeys env x)"
  proof -
    note ok = reload_valid [OF cat val]
    from key have "find_shard env ident ?s' = Inr None"
    proof
      assume a: "parsesPlain env ident \<and> (\<forall>x\<in>set shards. ident \<notin> primaryKeys env x)"
      with m have before: "map_find (lookup s) ident = None" by (simp add: find_shard_plain)
      from a have "map_find (lookup ?s') ident = map_find (lookup ?s0) ident"
        using reload_loop_frame [OF ok(2)] by blast
      with before have "map_find (lookup ?s') ident = None"
        by (cases "ident = ''config''") (simp_all add: reload_clear_lookup)
      with a show ?thesis by (simp add: find_shard_plain)
    next
      assume a: "parsesSet env ident n \<and> (\<forall>x\<in>set shards. n \<notin> rsKeys env x)"
      then have "map_find (rsLookup ?s') n = map_find (rsLookup ?s0) n"
        using reload_loop_rs_frame [OF ok(2)] by blast
      then have "map_find (rsLookup ?s') n = None" by (simp add: reload_clear_rsLookup)
      with a find_shard_set [of env ident n ?s'] show ?thesis by simp
    qed
    with findWithRetry_miss [OF m ok(1)] show ?thesis by simp
  qed
  have never: "fst (findWithRetry env ident s) \<noteq> Inr None"
    by (simp add: findWithRetry_def split: prod.splits sum.splits option.splits)
  from hit once fails found absent listed unlisted never show ?thesis by blast
qed

theorem findWithRetry_semantics_witness:
  "find_shard growEnv ''B'' growState = Inr (Some (mkShard growEnv docB)) \<and>
   findWithRetry growEnv ''B'' growState = (Inr (Some (mkShard growEnv docB)), growState) \<and>
   catalog growEnv (catalogCalls growState) = (OK, [docB] @ docA # []) \<and>
   validate growEnv docA = OK \<and> validate growEnv docB = OK \<and>
   find_shard growEnv ''A'' growState = Inr None \<and>
   fst (findWithRetry growEnv ''A'' growState) = Inr (Some (mkShard growEnv docA)) \<and>
   find_shard growEnv ''h1:1'' growState = Inr None \<and>
   fst (findWithRetry growEnv ''h1:1'' growState) = Inr (Some (mkShard growEnv docA)) \<and>
   find_shard growEnv ''rsA/h1:1,h2:1'' growState = Inr None \<and>
   fst (findWithRetry growEnv ''rsA/h1:1,h2:1'' growState) =
     Inr (Some (mkShard growEnv docA)) \<and>
   find_shard growEnv ''Y'' growState = Inr None \<and>
   fst (findWithRetry growEnv ''Y'' growState) = Inl (MsgAssertionException 13129) \<and>
   catalogCalls (snd (findWithRetry growEnv ''Y'' growState)) = Suc (catalogCalls growState)"
proof -
  note t = findWithRetry_semantics [where env = growEnv and s = growState and
             pre = "[docB]" and R = docA and post = "[]" and n = "''rsA''" and
             shards = "[docB, docA]" and sh = "mkShard growEnv docB"]
  from t [where ident = "''B''"] growState_find(1)
  have b: "findWithRetry growEnv ''B'' growState =
             (Inr (Some (mkShard growEnv docB)), growState)"
    by simp
  from t [where ident = "''A''"] growState_find(2) growEnv_catalog growEnv_parse
  have a: "fst (findWithRetry growEnv ''A'' growState) = Inr (Some (mkShard growEnv docA))"
    by (simp add: growEnv_keys)
  from t [where ident = "''h1:1''"] growState_find(3) growEnv_catalog growEnv_parse
  have h: "fst (findWithRetry growEnv ''h1:1'' growState) =
             Inr (Some (mkShard growEnv docA))"
    by (simp add: growEnv_keys)
  from t [where ident = "''rsA/h1:1,h2:1''"] growState_find(5) growEnv_catalog growEnv_parse
  have r: "fst (findWithRetry growEnv ''rsA/h1:1,h2:1'' growState) =
             Inr (Some (mkShard growEnv docA))"
    by (simp add: growEnv_keys)
  from t [where ident = "''Y''"] growState_find(4) growEnv_catalog growEnv_parse
  have y: "fst (findWithRetry growEnv ''Y'' growState) = Inl (MsgAssertionException 13129)"
          "catalogCalls (snd (findWithRetry growEnv ''Y'' growState)) =
             Suc (catalogCalls growState)"
    by (simp_all add: growEnv_keys reload_calls)
  from b a h r y growState_find growEnv_catalog show ?thesis by simp
qed

text \<open>
  The claim as stated fails: the shard \<open>A\<close> was removed from the cache, and the catalog
  lists \<open>docB\<close>, a document without a name and \<open>docA\<close>. \<open>A\<close> is absent before the reload
  and present in the catalog, yet \<open>findWithRetry("A")\<close> returns neither its record nor
  assertion 13129: the reload raises at the invalid document and that exception leaves
  \<open>findWithRetry\<close>.
\<close>

theorem findWithRetry_counterexample:
  "find_shard failEnv ''A'' (remove_shard ''A'' demoState) = Inr None \<and>
   catalog failEnv (catalogCalls (remove_shard ''A'' demoState)) = (OK, [docB, docBad, docA]) \<and>
   getName docA = ''A'' \<and> validate failEnv docA = OK \<and>
   fst (findWithRetry failEnv ''A'' (remove_shard ''A'' demoState)) = Inl (UserException 4)"
proof -
  have p: "parse failEnv ''A'' = (\<lparr>cs_type = MASTER, getSetName = [], getServers = [''A'']\<rparr>, [])"
    by (simp add: failEnv_def specEnv_def spec_parse_def spec_connStrSET_def)
  have m: "find_shard failEnv ''A'' (remove_shard ''A'' demoState) = Inr None"
    by (simp add: find_shard_def p removed_value)
  have c: "catalog failEnv (catalogCalls (remove_shard ''A'' demoState)) =
             (OK, [docB, docBad, docA])"
    by (simp add: removed_value failEnv_def specEnv_def)
  have v: "getName docA = ''A''" "validate failEnv docA = OK"
          "validate failEnv docB = OK" "validate failEnv docBad = NotOK 4"
    by (simp_all add: failEnv_def specEnv_def spec_validate_def docA_def docB_def docBad_def)
  have r: "fst (reload failEnv (remove_shard ''A'' demoState)) = Inl (UserException 4)"
    using c v by (simp add: reload_def Let_def reload_loop_Cons del: reload_loop.simps(2))
  have "fst (findWithRetry failEnv ''A'' (remove_shard ''A'' demoState)) = Inl (UserException 4)"
    using m r by (auto simp: findWithRetry_def split: prod.splits sum.splits option.splits)
  with m c v show ?thesis by simp
qed

subsection \<open>C5: \<open>pick\<close>\<close>

text \<open>
  C5. Placement under an ordering of the statuses that ranks by data size (a status with
  less data compares less, one with more data does not, and no status compares less than
  itself). With exactly the shards \<open>A\<close> and \<open>B\<close> in the cache, \<open>pick(EMPTY)\<close> returns \<open>B\<close>
  when \<open>B\<close> holds less data than \<open>A\<close> (50 MB against 100 MB), and \<open>pick(A)\<close> returns \<open>A\<close>
  when \<open>B\<close> holds more (150 MB against 100 MB): the running best is seeded from \<open>current\<close>
  when it is not \<open>EMPTY\<close>, else from the first candidate, and is replaced only by a
  candidate whose status compares less.
\<close>

theorem pick_placement:
  assumes lt: "\<And>a b. dataSizeBytes a < dataSizeBytes b \<Longrightarrow> statusLess env a b"
      and gt: "\<And>a b. dataSizeBytes b < dataSizeBytes a \<Longrightarrow> \<not> statusLess env a b"
      and irr: "\<And>a. \<not> statusLess env a a"
      and cands: "getAllShards s [] = [A, B] \<or> getAllShards s [] = [B, A]"
      and stA: "getStatus env A = Inr \<lparr>shard = A, dataSizeBytes = szA, mongoVersion = vA\<rparr>"
      and stB: "getStatus env B = Inr \<lparr>shard = B, dataSizeBytes = szB, mongoVersion = vB\<rparr>"
  shows "(szB < szA \<longrightarrow> pick env EMPTY s = (Inr B, s)) \<and>
         (szA < szB \<and> s_name A \<noteq> [] \<longrightarrow> pick env A s = (Inr A, s))"
proof -
  let ?a = "\<lparr>shard = A, dataSizeBytes = szA, mongoVersion = vA\<rparr>"
  let ?b = "\<lparr>shard = B, dataSizeBytes = szB, mongoVersion = vB\<rparr>"
  have e: "\<not> Shard_ne EMPTY EMPTY" by (simp add: Shard_ne_def)
  have first: "pick env EMPTY s = (Inr B, s)" if less: "szB < szA"
  proof -
    from less have ba: "statusLess env ?b ?a" by (simp add: lt)
    from less have ab: "\<not> statusLess env ?a ?b" by (simp add: gt)
    from cands show ?thesis
    proof
      assume "getAllShards s [] = [A, B]"
      then show ?thesis
        using stA stB ba irr [of ?a] irr [of ?b] e
        by (simp add: pick_def pick_best_def)
    next
      assume "getAllShards s [] = [B, A]"
      then show ?thesis
        using stA stB ab irr [of ?a] irr [of ?b] e
        by (simp add: pick_def pick_best_def)
    qed
  qed
  have second: "pick env A s = (Inr A, s)" if less: "szA < szB" and nm: "s_name A \<noteq> []"
  proof -
    from less have ba: "\<not> statusLess env ?b ?a" by (simp add: gt)
    from nm have ne: "Shard_ne A EMPTY" by (simp add: Shard_ne_def EMPTY_def Shard_default_def)
    from cands show ?thesis
    proof
      assume "getAllShards s [] = [A, B]"
      then show ?thesis
        using stA stB ba irr [of ?a] ne by (simp add: pick_def pick_best_def)
    next
      assume "getAllShards s [] = [B, A]"
      then show ?thesis
        using stA stB ba irr [of ?a] ne by (simp add: pick_def pick_best_def)
    qed
  qed
  from first second show ?thesis by blast
qed

theorem pick_placement_witness:
  "getAllShards demoState [] = [mkShard demoEnv docA, mkShard demoEnv docB] \<and>
   pick (pickEnv (50 * 1024 * 1024)) EMPTY demoState = (Inr (mkShard demoEnv docB), demoState) \<and>
   pick (pickEnv (150 * 1024 * 1024)) (mkShard demoEnv docA) demoState =
     (Inr (mkShard demoEnv docA), demoState)"
proof -
  let ?A = "mkShard demoEnv docA" and ?B = "mkShard demoEnv docB"
  have n: "s_name ?A \<noteq> []" by (simp add: mkShard_fields docA_def)
  from pick_placement [of "pickEnv (50 * 1024 * 1024)" demoState ?A ?B
         "100 * 1024 * 1024" "''3.1.0''" "50 * 1024 * 1024" "''3.1.0''"]
       pick_placement [of "pickEnv (150 * 1024 * 1024)" demoState ?A ?B
         "100 * 1024 * 1024" "''3.1.0''" "150 * 1024 * 1024" "''3.1.0''"]
       demoState_all n
  show ?thesis by (simp add: pickEnv_less pickEnv_status)
qed

subsection \<open>C6: \<open>remove\<close>\<close>

text \<open>
  C6. Remove completeness. In every state that satisfies the invariant of \<open>std::map\<close> (as
  every reachable state does, \<open>reachable_wf\<close>), after \<open>remove(n)\<close> each key of either table
  that pointed at a record named \<open>n\<close> is absent (the name, the member hosts, the connection
  string and the set name of a shard named \<open>n\<close> among them), each key that pointed at a
  record with another name still points at the same record, and a \<open>find\<close> that returned
  such a record still returns it.
\<close>

theorem remove_complete:
  assumes "wf_state s"
  shows "(\<forall>k. map_find (lookup (remove_shard n s)) k =
               (case map_find (lookup s) k of
                  None \<Rightarrow> None
                | Some sh \<Rightarrow> if s_name sh = n then None else Some sh)) \<and>
         (\<forall>k. map_find (rsLookup (remove_shard n s)) k =
               (case map_find (rsLookup s) k of
                  None \<Rightarrow> None
                | Some sh \<Rightarrow> if s_name sh = n then None else Some sh)) \<and>
         (\<forall>ident sh. find_shard env ident s = Inr (Some sh) \<and> s_name sh \<noteq> n \<longrightarrow>
               find_shard env ident (remove_shard n s) = Inr (Some sh))"
proof -
  from assms have wl: "wf_map (lookup s)" and wr: "wf_map (rsLookup s)"
    by (simp_all add: wf_state_def)
  have l: "\<forall>k. map_find (lookup (remove_shard n s)) k =
               (case map_find (lookup s) k of
                  None \<Rightarrow> None
                | Some sh \<Rightarrow> if s_name sh = n then None else Some sh)"
    by (simp add: remove_shard_def remove_loop_find_wf [OF wl])
  have r: "\<forall>k. map_find (rsLookup (remove_shard n s)) k =
               (case map_find (rsLookup s) k of
                  None \<Rightarrow> None
                | Some sh \<Rightarrow> if s_name sh = n then None else Some sh)"
    by (simp add: remove_shard_def remove_loop_find_wf [OF wr])
  have q: "\<forall>ident sh. find_shard env ident s = Inr (Some sh) \<and> s_name sh \<noteq> n \<longrightarrow>
               find_shard env ident (remove_shard n s) = Inr (Some sh)"
    by (auto simp: find_shard_cases remove_shard_def remove_loop_keeps split: if_splits)
  from l r q show ?thesis by blast
qed

theorem remove_complete_witness:
  "wf_state demoState \<and>
   map_find (lookup (remove_shard ''A'' demoState)) ''A'' = None \<and>
   map_find (lookup (remove_shard ''A'' demoState)) ''h1:1'' = None \<and>
   map_find (lookup (remove_shard ''A'' demoState)) ''rsA/h1:1,h2:1'' = None \<and>
   map_find (rsLookup (remove_shard ''A'' demoState)) ''rsA'' = None \<and>
   map_find (lookup (remove_shard ''A'' demoState)) ''hb:1'' = Some (mkShard demoEnv docB) \<and>
   find_shard demoEnv ''B'' (remove_shard ''A'' demoState) = Inr (Some (mkShard demoEnv docB))"
proof -
  have f: "find_shard demoEnv ''B'' demoState = Inr (Some (mkShard demoEnv docB))"
    by (simp add: find_shard_cases demoState_value) (simp add: demo_defs)
  have n: "s_name (mkShard demoEnv docA) = ''A''" "s_name (mkShard demoEnv docB) = ''B''"
    by (simp_all add: mkShard_fields docA_def docB_def)
  from remove_complete [OF wf_demoState, of "''A''" demoEnv] f n wf_demoState
  show ?thesis by (simp add: demoState_value)
qed

subsection \<open>C7: \<open>getAllShards\<close>\<close>

text \<open>
  C7. For every state of the cache, the vector that \<open>getAllShards\<close> fills (starting from an
  empty vector) holds no record named \<open>"config"\<close> and no two records with the same name,
  however many keys of the primary table point at one record.
\<close>

theorem getAllShards_distinct:
  "''config'' \<notin> set (map s_name (getAllShards s [])) \<and>
   distinct (map s_name (getAllShards s []))"
  unfolding getAllShards_def
  using getAllShards_loop_names [of "[]" "{}" "lookup s"] by simp

theorem getAllShards_distinct_witness:
  "length (lookup demoState) = 7 \<and>
   map s_name (getAllShards demoState []) = [''A'', ''B''] \<and>
   ''config'' \<notin> set (map s_name (getAllShards demoState [])) \<and>
   distinct (map s_name (getAllShards demoState []))"
  using getAllShards_distinct [of demoState]
  by (simp add: demoState_all demoState_value mkShard_fields docA_def docB_def)

subsection \<open>C8: \<open>lookupRSName\<close>\<close>

text \<open>
  C8. \<open>lookupRSName(name)\<close> only reads \<open>_rsLookup\<close>: it returns the record stored under the
  set name when there is one and \<open>EMPTY\<close> when there is none, and it leaves the whole
  state as it was, the count of catalog calls included, so it never reloads.
\<close>

theorem lookupRSName_pure:
  "(\<forall>sh. map_find (rsLookup s) n = Some sh \<longrightarrow> fst (lookupRSName n s) = sh) \<and>
   (map_find (rsLookup s) n = None \<longrightarrow> fst (lookupRSName n s) = EMPTY) \<and>
   snd (lookupRSName n s) = s"
  by (simp add: lookupRSName_def split: option.splits)

theorem lookupRSName_pure_witness:
  "fst (lookupRSName ''rsA'' demoState) = mkShard demoEnv docA \<and>
   fst (lookupRSName ''rsB'' demoState) = EMPTY \<and>
   snd (lookupRSName ''rsB'' demoState) = demoState"
  using lookupRSName_pure [of demoState "''rsA''"] lookupRSName_pure [of demoState "''rsB''"]
  by (simp add: demoState_value)

subsection \<open>C9: \<open>containsNode\<close>\<close>

text \<open>
  C9. \<open>containsNode(node)\<close> returns true when \<open>node\<close> equals the shard's own address string.
  Otherwise, for a replica-set descriptor, it returns the answer of the monitor of that set
  name; when no monitor is found it returns false and logs one warning, and raises nothing.
  For any other descriptor it returns false.
\<close>

theorem containsNode_cases:
  "(s_addr sh = node \<longrightarrow> containsNode env sh node = (Inr True, [])) \<and>
   (s_addr sh \<noteq> node \<and> cs_type (s_cs sh) = SET \<and>
    rsMonitorGet env (getSetName (s_cs sh)) = Some rs \<longrightarrow>
      containsNode env sh node = (rs node, [])) \<and>
   (s_addr sh \<noteq> node \<and> cs_type (s_cs sh) = SET \<and>
    rsMonitorGet env (getSetName (s_cs sh)) = None \<longrightarrow>
      containsNode env sh node =
        (Inr False, [''Monitor not found for a known shard: '' @ getSetName (s_cs sh)])) \<and>
   (s_addr sh \<noteq> node \<and> cs_type (s_cs sh) \<noteq> SET \<longrightarrow>
      containsNode env sh node = (Inr False, []))"
  by (simp add: containsNode_def)

theorem containsNode_cases_witness:
  "containsNode demoEnv (mkShard demoEnv docA) ''rsA/h1:1,h2:1'' = (Inr True, []) \<and>
   containsNode monEnv (mkShard demoEnv docA) ''h1:1'' = (Inr True, []) \<and>
   containsNode monEnv (mkShard demoEnv docA) ''h9:1'' = (Inr False, []) \<and>
   containsNode demoEnv (mkShard demoEnv docA) ''h1:1'' =
     (Inr False, [''Monitor not found for a known shard: rsA'']) \<and>
   containsNode demoEnv (mkShard demoEnv docB) ''h1:1'' = (Inr False, [])"
proof -
  let ?A = "mkShard demoEnv docA" and ?B = "mkShard demoEnv docB"
  let ?rs = "\<lambda>node. (Inr (node = ''h1:1'' \<or> node = ''h2:1'') :: error + bool)"
  have A: "s_addr ?A = ''rsA/h1:1,h2:1''" "cs_type (s_cs ?A) = SET" "getSetName (s_cs ?A) = ''rsA''"
    by (simp_all add: demo_defs)
  have B: "s_addr ?B = ''hb:1''" "cs_type (s_cs ?B) = MASTER"
    by (simp_all add: demo_defs)
  have m: "rsMonitorGet monEnv ''rsA'' = Some ?rs" "rsMonitorGet demoEnv ''rsA'' = None"
    by (simp_all add: monEnv_def demoEnv_def specEnv_def)
  from containsNode_cases [of ?A "''rsA/h1:1,h2:1''" demoEnv ?rs]
       containsNode_cases [of ?A "''h1:1''" monEnv ?rs]
       containsNode_cases [of ?A "''h9:1''" monEnv ?rs]
       containsNode_cases [of ?A "''h1:1''" demoEnv ?rs]
       containsNode_cases [of ?B "''h1:1''" demoEnv ?rs]
       A B m
  show ?thesis by simp
qed

subsection \<open>C10: \<open>remove("config")\<close>\<close>

text \<open>
  C10. \<open>remove\<close> does not treat the \<open>"config"\<close> entry specially: when the primary table
  holds the record named \<open>config\<close> under the key \<open>"config"\<close>, \<open>remove("config")\<close> deletes
  that entry, and afterwards no key of either table points at a record named \<open>config\<close>;
  the clearing step of \<open>reload\<close>, in contrast, keeps the entry. (\<open>remove\<close> compares the
  names of the records, so the entry meant is the one whose record is named \<open>config\<close>.)
\<close>

theorem remove_config_unprotected:
  assumes "wf_state s" and "map_find (lookup s) ''config'' = Some c" and "s_name c = ''config''"
  shows "map_find (lookup (remove_shard ''config'' s)) ''config'' = None \<and>
         (\<forall>k sh. map_find (lookup (remove_shard ''config'' s)) k = Some sh \<or>
                  map_find (rsLookup (remove_shard ''config'' s)) k = Some sh \<longrightarrow>
                  s_name sh \<noteq> ''config'') \<and>
         map_find (lookup (reload_clear s)) ''config'' = Some c"
proof -
  from assms(1) have wl: "wf_map (lookup s)" and wr: "wf_map (rsLookup s)"
    by (simp_all add: wf_state_def)
  have a: "map_find (lookup (remove_shard ''config'' s)) ''config'' = None"
    using assms(2,3) by (simp add: remove_shard_def remove_loop_find_wf [OF wl])
  have b: "\<forall>k sh. map_find (lookup (remove_shard ''config'' s)) k = Some sh \<or>
                  map_find (rsLookup (remove_shard ''config'' s)) k = Some sh \<longrightarrow>
                  s_name sh \<noteq> ''config''"
    by (auto simp: remove_shard_def remove_loop_mem_iff dest!: map_find_Some_mem)
  have c: "map_find (lookup (reload_clear s)) ''config'' = Some c"
    using assms(2) by (simp add: reload_clear_lookup)
  from a b c show ?thesis by blast
qed

theorem remove_config_unprotected_witness:
  "wf_state demoState \<and> map_find (lookup demoState) ''config'' = Some configShard \<and>
   s_name configShard = ''config'' \<and>
   map_find (lookup (remove_shard ''config'' demoState)) ''config'' = None \<and>
   map_find (lookup (reload_clear demoState)) ''config'' = Some configShard"
proof -
  have a: "map_find (lookup demoState) ''config'' = Some configShard"
    by (simp add: demoState_value)
  have b: "s_name configShard = ''config''" by (simp add: configShard_def)
  from remove_config_unprotected [OF wf_demoState a b] a b wf_demoState
  show ?thesis by simp
qed

end
